theory Spec2Isabelle
  imports Complex_Main "HOL-Library.Multiset" "HOL-Library.Sublist" "HOL-Library.AList"
begin

section \<open>JavaScript values\<close>

text \<open>
  The bingo application is a single TypeScript module. Its core functions
  (\<open>shuffle\<close>, \<open>normalizeWords\<close>, \<open>normalizeConfig\<close>, \<open>generateCard\<close>,
  \<open>countCompletedLines\<close>, \<open>toggle\<close>) receive values decoded from a JSON document, so the
  embedding starts with those values: the six JSON kinds and \<open>undefined\<close> (a missing
  property). A string is the list of its code units; \<open>char\<close> covers the code units
  0 to 255. An object is the list of its own properties in enumeration order
  (\<open>Object.keys\<close> order), each key once.

  A number is NaN, an infinity, negative zero, or a finite value. Nothing in the program
  computes with the numbers of a document: it tests them for falsiness and prints them.
\<close>

datatype jsnum = NaN | PosInf | NegInf | NegZero | Fin rat

datatype jsval =
    JUndefined
  | JNull
  | JBool bool
  | JNum jsnum
  | JStr string
  | JArr "jsval list"
  | JObj "(string \<times> jsval) list"

text \<open>
  Two conversions of the language are floating-point algorithms that are not part of the
  repository: printing a number (\<open>Number::toString\<close>) and reading a number from a string
  (\<open>StringToNumber\<close>). The functions that reach them take them as a parameter.
\<close>

record engine =
  NumberToString :: "jsnum \<Rightarrow> string"
  StringToNumber :: "string \<Rightarrow> jsnum"

text \<open>
  What a JavaScript throw becomes. \<open>generateCard\<close> throws
  \<open>new Error(...)\<close> whose message interpolates \<open>needed\<close> and \<open>words.length\<close> into a fixed
  text; the model keeps the two numbers. Reading a property of \<open>undefined\<close> or \<open>null\<close>
  throws a \<open>TypeError\<close>, and so does converting an object that has no usable
  \<open>toString\<close> to a string or a number.
\<close>

datatype error = TypeError | Error (needed: nat) (provided: nat)

definition and_then :: "error + 'a \<Rightarrow> ('a \<Rightarrow> error + 'b) \<Rightarrow> error + 'b" where
  "and_then m f = (case m of Inl e \<Rightarrow> Inl e | Inr x \<Rightarrow> f x)"

text \<open>
  The results of a sequence of evaluations that may throw, in order: the first throw
  ends it.
\<close>

fun collect :: "(error + 'a) list \<Rightarrow> error + 'a list" where
  "collect [] = Inr []"
| "collect (r # rs) = and_then r (\<lambda>x. and_then (collect rs) (\<lambda>xs. Inr (x # xs)))"

text \<open>A \<open>for\<close> loop over the given indices whose body may throw.\<close>

fun for_each :: "'i list \<Rightarrow> 's \<Rightarrow> ('i \<Rightarrow> 's \<Rightarrow> error + 's) \<Rightarrow> error + 's" where
  "for_each [] s body = Inr s"
| "for_each (i # is) s body = and_then (body i s) (\<lambda>s'. for_each is s' body)"

section \<open>Constants and utilities\<close>

definition SIZE :: nat where
  "SIZE = 4"

definition REQUIRED_LINES :: nat where
  "REQUIRED_LINES = 3"

fun join_with :: "string \<Rightarrow> string list \<Rightarrow> string" where
  "join_with sep [] = []"
| "join_with sep [s] = s"
| "join_with sep (s # t # ss) = s @ sep @ join_with sep (t # ss)"

text \<open>
  \<open>String(v)\<close>. An array prints its elements from left to right, separated by commas,
  \<open>null\<close> and \<open>undefined\<close> elements as nothing (\<open>Array.prototype.join\<close>). An object is
  converted through its \<open>toString\<close> property and then its \<open>valueOf\<close> property. A decoded
  JSON object has the inherited ones unless it has a member of that name, and a member
  is never a function. So an object without a member \<open>toString\<close> prints as
  \<open>[object Object]\<close>; with such a member the conversion skips it, gets no primitive
  value from \<open>valueOf\<close> either, and throws a \<open>TypeError\<close>.
\<close>

fun ToString :: "engine \<Rightarrow> jsval \<Rightarrow> error + string" where
  "ToString E JUndefined = Inr ''undefined''"
| "ToString E JNull = Inr ''null''"
| "ToString E (JBool b) = Inr (if b then ''true'' else ''false'')"
| "ToString E (JNum n) = Inr (NumberToString E n)"
| "ToString E (JStr s) = Inr s"
| "ToString E (JArr xs) =
     and_then
       (collect (map (\<lambda>x. if x = JUndefined \<or> x = JNull then Inr [] else ToString E x) xs))
       (\<lambda>ss. Inr (join_with '','' ss))"
| "ToString E (JObj kvs) =
     (if ''toString'' \<in> set (map fst kvs) then Inl TypeError else Inr ''[object Object]'')"

text \<open>\<open>const S = (v: any) => String(v ?? "")\<close>\<close>

definition S :: "engine \<Rightarrow> jsval \<Rightarrow> error + string" where
  "S E v = ToString E (if v = JUndefined \<or> v = JNull then JStr [] else v)"

text \<open>\<open>const isArr = (v: any): v is any[] => Array.isArray(v)\<close>\<close>

fun isArr :: "jsval \<Rightarrow> bool" where
  "isArr (JArr xs) = True"
| "isArr v = False"

text \<open>
  \<open>String.prototype.trim\<close> strips white space and line terminators from both ends. Among
  the code units 0 to 255 these are TAB, LF, VT, FF, CR, SP and NBSP.
\<close>

definition isWhiteSpace :: "char \<Rightarrow> bool" where
  "isWhiteSpace ch = (of_char ch \<in> {9, 10, 11, 12, 13, 32, 160 :: nat})"

definition trim :: "string \<Rightarrow> string" where
  "trim s = rev (dropWhile isWhiteSpace (rev (dropWhile isWhiteSpace s)))"

text \<open>
  \<open>normalizeWords\<close>:
  \<^verbatim>\<open>if (!isArr(raw)) return [];
  return raw.map(S).map((s) => s.trim()).filter(Boolean);\<close>
  \<open>Boolean\<close> of a string is false for the empty string only. \<open>raw.map(S)\<close> converts
  every element before anything is trimmed, and a conversion that throws ends the call.
\<close>

fun normalizeWords :: "engine \<Rightarrow> jsval \<Rightarrow> error + string list" where
  "normalizeWords E (JArr raw) =
     and_then (collect (map (S E) raw)) (\<lambda>ss. Inr (filter (\<lambda>s. s \<noteq> []) (map trim ss)))"
| "normalizeWords E raw = Inr []"

section \<open>Shuffle\<close>

text \<open>
  \<^verbatim>\<open>const a = [...arr];
  for (let i = a.length - 1; i > 0; i--) {
    const j = Math.floor(Math.random() * (i + 1));
    [a[i], a[j]] = [a[j], a[i]];
  }
  return a;\<close>
  The random source is injected: \<open>rnd k\<close> is the result of the \<open>k\<close>-th call of
  \<open>Math.random\<close>, which the language specifies to lie in [0, 1). The swap reads both
  cells before it writes. Under that contract \<open>j \<le> i\<close>, so the swap stays inside the array.
\<close>

definition valid_random :: "(nat \<Rightarrow> rat) \<Rightarrow> bool" where
  "valid_random rnd = (\<forall>k. 0 \<le> rnd k \<and> rnd k < 1)"

fun shuffle_loop :: "(nat \<Rightarrow> rat) \<Rightarrow> nat \<Rightarrow> nat \<Rightarrow> 'a list \<Rightarrow> 'a list" where
  "shuffle_loop rnd k 0 a = a"
| "shuffle_loop rnd k (Suc n) a =
     (let i = Suc n;
          j = nat \<lfloor>rnd k * of_nat (i + 1)\<rfloor>
      in shuffle_loop rnd (Suc k) n (a[i := a ! j, j := a ! i]))"

definition shuffle :: "(nat \<Rightarrow> rat) \<Rightarrow> 'a list \<Rightarrow> 'a list" where
  "shuffle rnd arr = (let a = arr in shuffle_loop rnd 0 (length a - 1) a)"

text \<open>
  The same function over a store of arrays, to say what it does to its argument. A
  reference is an index into the store; \<open>[...arr]\<close> allocates a new array at the end of
  the store, and every write of the loop goes through the reference \<open>a\<close>.
\<close>

type_synonym 'a store = "'a list list"

fun shuffle_loop_ref :: "(nat \<Rightarrow> rat) \<Rightarrow> nat \<Rightarrow> nat \<Rightarrow> nat \<Rightarrow> 'a store \<Rightarrow> 'a store" where
  "shuffle_loop_ref rnd k 0 a h = h"
| "shuffle_loop_ref rnd k (Suc n) a h =
     (let i = Suc n;
          j = nat \<lfloor>rnd k * of_nat (i + 1)\<rfloor>;
          x = h ! a ! j;
          y = h ! a ! i;
          h1 = h[a := (h ! a)[i := x]];
          h2 = h1[a := (h1 ! a)[j := y]]
      in shuffle_loop_ref rnd (Suc k) n a h2)"

definition shuffle_ref :: "(nat \<Rightarrow> rat) \<Rightarrow> 'a store \<Rightarrow> nat \<Rightarrow> nat \<times> 'a store" where
  "shuffle_ref rnd h arr =
     (let a = length h;
          h0 = h @ [h ! arr]
      in (a, shuffle_loop_ref rnd 0 (length (h0 ! a) - 1) a h0))"

section \<open>Card generation\<close>

text \<open>
  \<^verbatim>\<open>const words = normalizeWords(wordsInput);
  const needed = SIZE * SIZE;
  if (words.length < needed) throw new Error(...needed...words.length...);
  const picks = shuffle(words).slice(0, needed);
  const grid = []; let idx = 0;
  for (let r = 0; r < SIZE; r++) {
    const row = [];
    for (let c = 0; c < SIZE; c++) row.push(S(picks[idx++]));
    grid.push(row);
  }
  return grid;\<close>
  The two loops thread \<open>idx\<close>; \<open>picks\<close> has \<open>needed\<close> elements, so every read is in range.
\<close>

definition row_loop :: "engine \<Rightarrow> string list \<Rightarrow> nat \<Rightarrow> error + string list \<times> nat" where
  "row_loop E picks idx0 =
     for_each [0..<SIZE] ([], idx0) (\<lambda>c (row, idx).
       and_then (S E (JStr (picks ! idx))) (\<lambda>s. Inr (row @ [s], Suc idx)))"

definition grid_loop :: "engine \<Rightarrow> string list \<Rightarrow> error + string list list \<times> nat" where
  "grid_loop E picks =
     for_each [0..<SIZE] ([], 0) (\<lambda>r (grid, idx).
       and_then (row_loop E picks idx) (\<lambda>(row, idx'). Inr (grid @ [row], idx')))"

definition generateCard :: "engine \<Rightarrow> (nat \<Rightarrow> rat) \<Rightarrow> jsval \<Rightarrow> error + string list list" where
  "generateCard E rnd wordsInput =
     and_then (normalizeWords E wordsInput) (\<lambda>words.
       let needed = SIZE * SIZE
       in if length words < needed then Inl (Error needed (length words))
          else let picks = take needed (shuffle rnd words)
               in and_then (grid_loop E picks) (\<lambda>(grid, idx). Inr grid))"

section \<open>Counting completed lines\<close>

text \<open>
  \<open>marked[r]\<close> is \<open>undefined\<close> when the matrix has no row \<open>r\<close>, and reading a cell or
  calling \<open>every\<close> on it throws; \<open>marked[r][c]\<close> beyond the end of a row is \<open>undefined\<close>,
  which is falsy.
\<close>

definition row_of :: "bool list list \<Rightarrow> nat \<Rightarrow> error + bool list" where
  "row_of marked r = (if r < length marked then Inr (marked ! r) else Inl TypeError)"

definition cell_of :: "bool list \<Rightarrow> nat \<Rightarrow> bool" where
  "cell_of row c = (c < length row \<and> row ! c)"

text \<open>
  \<^verbatim>\<open>let lines = 0;
  for (let r = 0; r < SIZE; r++) if (marked[r].every(Boolean)) lines++;
  for (let c = 0; c < SIZE; c++) {
    let ok = true;
    for (let r = 0; r < SIZE; r++) if (!marked[r][c]) ok = false;
    if (ok) lines++;
  }
  let d1 = true, d2 = true;
  for (let i = 0; i < SIZE; i++) {
    if (!marked[i][i]) d1 = false;
    if (!marked[i][SIZE - 1 - i]) d2 = false;
  }
  if (d1) lines++;
  if (d2) lines++;
  return lines;\<close>
\<close>

definition count_rows :: "bool list list \<Rightarrow> nat \<Rightarrow> error + nat" where
  "count_rows marked lines0 =
     for_each [0..<SIZE] lines0 (\<lambda>r lines.
       and_then (row_of marked r) (\<lambda>row.
         Inr (if list_all (\<lambda>m. m) row then lines + 1 else lines)))"

definition column_ok :: "bool list list \<Rightarrow> nat \<Rightarrow> error + bool" where
  "column_ok marked c =
     for_each [0..<SIZE] True (\<lambda>r ok.
       and_then (row_of marked r) (\<lambda>row.
         Inr (if \<not> cell_of row c then False else ok)))"

definition count_cols :: "bool list list \<Rightarrow> nat \<Rightarrow> error + nat" where
  "count_cols marked lines0 =
     for_each [0..<SIZE] lines0 (\<lambda>c lines.
       and_then (column_ok marked c) (\<lambda>ok.
         Inr (if ok then lines + 1 else lines)))"

definition diagonals :: "bool list list \<Rightarrow> error + bool \<times> bool" where
  "diagonals marked =
     for_each [0..<SIZE] (True, True) (\<lambda>i (d1, d2).
       and_then (row_of marked i) (\<lambda>row.
         Inr (if \<not> cell_of row i then False else d1,
              if \<not> cell_of row (SIZE - 1 - i) then False else d2)))"

definition countCompletedLines :: "bool list list \<Rightarrow> error + nat" where
  "countCompletedLines marked =
     and_then (count_rows marked 0) (\<lambda>lines.
     and_then (count_cols marked lines) (\<lambda>lines.
     and_then (diagonals marked) (\<lambda>(d1, d2).
       let lines = (if d1 then lines + 1 else lines);
           lines = (if d2 then lines + 1 else lines)
       in Inr lines)))"

section \<open>Toggle\<close>

text \<open>
  \<open>xs.map((x, i) => f(x, i))\<close>, and the state update of the card component:
  \<^verbatim>\<open>cur.map((row, ri) => row.map((m, ci) => (ri === r && ci === c ? !m : m)))\<close>
\<close>

definition map_index :: "('a \<Rightarrow> nat \<Rightarrow> 'b) \<Rightarrow> 'a list \<Rightarrow> 'b list" where
  "map_index f xs = map (\<lambda>(i, x). f x i) (enumerate 0 xs)"

definition toggle :: "nat \<Rightarrow> nat \<Rightarrow> bool list list \<Rightarrow> bool list list" where
  "toggle r c cur =
     map_index (\<lambda>row ri. map_index (\<lambda>m ci. if ri = r \<and> ci = c then \<not> m else m) row) cur"

section \<open>Configuration normalisation\<close>

text \<open>
  Property reads. \<open>v.k\<close> throws on \<open>undefined\<close> and \<open>null\<close>; \<open>v?.k\<close> yields
  \<open>undefined\<close> there. On any other value the read finds an own property: a member of an
  object, an element or the length of an array or string. The program reads the names
  \<open>cats\<close>, \<open>ord\<close>, \<open>size\<close> and \<open>lines\<close> from the document and, from the raw category
  object, only keys that \<open>Object.keys\<close> returned for it; none of these names is
  inherited from a built-in prototype. The keys of an array are the decimal numerals of
  its indices.
\<close>

definition digit :: "nat \<Rightarrow> char" where
  "digit d = ''0123456789'' ! d"

function decimal :: "nat \<Rightarrow> string" where
  "decimal n = (if n < 10 then [digit n] else decimal (n div 10) @ [digit (n mod 10)])"
  by pat_completeness auto
termination
  by (relation "measure (\<lambda>n. n)") auto

declare decimal.simps [simp del]

definition indexed :: "jsval list \<Rightarrow> (string \<times> jsval) list" where
  "indexed xs = zip (map decimal [0..<length xs]) xs"

fun own_prop :: "jsval \<Rightarrow> string \<Rightarrow> jsval" where
  "own_prop (JObj kvs) k = (case map_of kvs k of Some v \<Rightarrow> v | None \<Rightarrow> JUndefined)"
| "own_prop (JArr xs) k =
     (case map_of (indexed xs) k of
        Some v \<Rightarrow> v
      | None \<Rightarrow> if k = ''length'' then JNum (Fin (of_nat (length xs))) else JUndefined)"
| "own_prop (JStr s) k =
     (case map_of (indexed (map (\<lambda>ch. JStr [ch]) s)) k of
        Some v \<Rightarrow> v
      | None \<Rightarrow> if k = ''length'' then JNum (Fin (of_nat (length s))) else JUndefined)"
| "own_prop v k = JUndefined"

definition get_prop :: "jsval \<Rightarrow> string \<Rightarrow> error + jsval" where
  "get_prop v k = (if v = JUndefined \<or> v = JNull then Inl TypeError else Inr (own_prop v k))"

definition opt_prop :: "jsval \<Rightarrow> string \<Rightarrow> jsval" where
  "opt_prop v k = (if v = JUndefined \<or> v = JNull then JUndefined else own_prop v k)"

text \<open>\<open>Object.keys(v)\<close> throws on \<open>undefined\<close> and \<open>null\<close>.\<close>

fun object_keys :: "jsval \<Rightarrow> error + string list" where
  "object_keys JUndefined = Inl TypeError"
| "object_keys JNull = Inl TypeError"
| "object_keys (JObj kvs) = Inr (map fst kvs)"
| "object_keys (JArr xs) = Inr (map decimal [0..<length xs])"
| "object_keys (JStr s) = Inr (map decimal [0..<length s])"
| "object_keys v = Inr []"

text \<open>Truthiness, \<open>typeof v === "object"\<close>, and \<open>Number(v)\<close>.\<close>

definition falsy_num :: "jsnum \<Rightarrow> bool" where
  "falsy_num n = (n = NaN \<or> n = Fin 0 \<or> n = NegZero)"

fun truthy :: "jsval \<Rightarrow> bool" where
  "truthy JUndefined = False"
| "truthy JNull = False"
| "truthy (JBool b) = b"
| "truthy (JNum n) = (\<not> falsy_num n)"
| "truthy (JStr s) = (s \<noteq> [])"
| "truthy (JArr xs) = True"
| "truthy (JObj kvs) = True"

fun typeof_object :: "jsval \<Rightarrow> bool" where
  "typeof_object JNull = True"
| "typeof_object (JArr xs) = True"
| "typeof_object (JObj kvs) = True"
| "typeof_object v = False"

text \<open>
  An array or an object converts to a number through \<open>valueOf\<close> and then \<open>toString\<close>.
  The inherited \<open>valueOf\<close> returns the object itself, which is no primitive value, so
  the string decides: an array converts through its string, an object without a member
  \<open>toString\<close> through \<open>[object Object]\<close>, which is not a numeric literal, and an object
  with a member \<open>toString\<close> throws a \<open>TypeError\<close>.
\<close>

fun Number :: "engine \<Rightarrow> jsval \<Rightarrow> error + jsnum" where
  "Number E JUndefined = Inr NaN"
| "Number E JNull = Inr (Fin 0)"
| "Number E (JBool b) = Inr (if b then Fin 1 else Fin 0)"
| "Number E (JNum n) = Inr n"
| "Number E (JStr s) = Inr (StringToNumber E s)"
| "Number E (JArr xs) = and_then (ToString E (JArr xs)) (\<lambda>s. Inr (StringToNumber E s))"
| "Number E (JObj kvs) =
     (if ''toString'' \<in> set (map fst kvs) then Inl TypeError else Inr NaN)"

text \<open>\<open>n || d\<close> on numbers.\<close>

definition or_default :: "jsnum \<Rightarrow> jsnum \<Rightarrow> jsnum" where
  "or_default n d = (if falsy_num n then d else n)"

text \<open>
  The object \<open>cats\<close> starts as the literal \<open>{}\<close>, whose prototype is \<open>Object.prototype\<close>.
  An assignment \<open>cats[k] = v\<close> creates or overwrites the own property \<open>k\<close>, except for
  the key \<open>__proto__\<close>: that assignment runs the inherited setter, which makes the
  array \<open>v\<close> the prototype of \<open>cats\<close> and creates no own property.
\<close>

record catsobj =
  own :: "(string \<times> string list) list"
  proto :: "string list option"

definition empty_cats :: catsobj where
  "empty_cats = \<lparr>own = [], proto = None\<rparr>"

definition cats_put :: "catsobj \<Rightarrow> string \<Rightarrow> string list \<Rightarrow> catsobj" where
  "cats_put obj k v =
     (if k = ''__proto__'' then obj\<lparr>proto := Some v\<rparr>
      else obj\<lparr>own := AList.update k v (own obj)\<rparr>)"

definition cats_keys :: "catsobj \<Rightarrow> string list" where
  "cats_keys obj = map fst (own obj)"

text \<open>
  \<open>!!cats[n]\<close>. An own property holds an array, which is truthy. Any other name is
  looked up along the prototype chain: the members of \<open>Object.prototype\<close> are functions,
  and \<open>__proto__\<close> reads the prototype itself. When an array has become the prototype, its
  elements, its length and the members of \<open>Array.prototype\<close> (ECMAScript 2023) come first.
\<close>

definition object_prototype_names :: "string list" where
  "object_prototype_names =
     [''constructor'', ''hasOwnProperty'', ''isPrototypeOf'', ''propertyIsEnumerable'',
      ''toLocaleString'', ''toString'', ''valueOf'', ''__proto__'',
      ''__defineGetter__'', ''__defineSetter__'', ''__lookupGetter__'', ''__lookupSetter__'']"

definition array_prototype_names :: "string list" where
  "array_prototype_names =
     [''at'', ''concat'', ''copyWithin'', ''entries'', ''every'', ''fill'', ''filter'',
      ''find'', ''findIndex'', ''findLast'', ''findLastIndex'', ''flat'', ''flatMap'',
      ''forEach'', ''includes'', ''indexOf'', ''join'', ''keys'', ''lastIndexOf'', ''map'',
      ''pop'', ''push'', ''reduce'', ''reduceRight'', ''reverse'', ''shift'', ''slice'',
      ''some'', ''sort'', ''splice'', ''toReversed'', ''toSorted'', ''toSpliced'',
      ''unshift'', ''values'', ''with'']"

definition inherited_truthy :: "string list option \<Rightarrow> string \<Rightarrow> bool" where
  "inherited_truthy p n =
     (case p of
        None \<Rightarrow> n \<in> set object_prototype_names
      | Some a \<Rightarrow>
          n \<in> set (map decimal (filter (\<lambda>i. a ! i \<noteq> []) [0..<length a]))
          \<or> (n = ''length'' \<and> a \<noteq> [])
          \<or> n \<in> set array_prototype_names
          \<or> n \<in> set object_prototype_names)"

definition cats_truthy :: "catsobj \<Rightarrow> string \<Rightarrow> bool" where
  "cats_truthy obj n = (n \<in> set (cats_keys obj) \<or> inherited_truthy (proto obj) n)"

text \<open>
  \<^verbatim>\<open>type Config = { cats: Cats; size: number; lines: number; ord?: string[] };\<close>
  \<^verbatim>\<open>const cats: Cats = {};
  const rawCats = json?.cats && typeof json.cats === "object" ? json.cats : {};
  for (const k of Object.keys(rawCats)) cats[S(k)] = normalizeWords(rawCats[k]);
  const ord = isArr(json?.ord) ? normalizeWords(json.ord) : Object.keys(cats);
  const size = Number(json?.size) || SIZE;
  const lines = Number(json?.lines) || REQUIRED_LINES;
  return { cats, size, lines, ord };\<close>
\<close>

record config =
  cats :: catsobj
  size_cfg :: jsnum
  lines :: jsnum
  ord :: "string list option"

definition raw_cats :: "jsval \<Rightarrow> error + jsval" where
  "raw_cats json =
     (if truthy (opt_prop json ''cats'') \<and> typeof_object (opt_prop json ''cats'')
      then get_prop json ''cats'' else Inr (JObj []))"

definition fill_cats :: "engine \<Rightarrow> jsval \<Rightarrow> string list \<Rightarrow> error + catsobj" where
  "fill_cats E rawCats ks =
     for_each ks empty_cats (\<lambda>k obj.
       and_then (S E (JStr k)) (\<lambda>key.
       and_then (get_prop rawCats k) (\<lambda>v.
       and_then (normalizeWords E v) (\<lambda>ws.
         Inr (cats_put obj key ws)))))"

definition raw_ord :: "engine \<Rightarrow> jsval \<Rightarrow> catsobj \<Rightarrow> error + string list" where
  "raw_ord E json obj =
     (if isArr (opt_prop json ''ord'')
      then and_then (get_prop json ''ord'') (\<lambda>v. normalizeWords E v)
      else Inr (cats_keys obj))"

definition normalizeConfig :: "engine \<Rightarrow> jsval \<Rightarrow> error + config" where
  "normalizeConfig E json =
     and_then (raw_cats json) (\<lambda>rawCats.
     and_then (object_keys rawCats) (\<lambda>ks.
     and_then (fill_cats E rawCats ks) (\<lambda>obj.
     and_then (raw_ord E json obj) (\<lambda>names.
     and_then (Number E (opt_prop json ''size'')) (\<lambda>n.
     and_then (Number E (opt_prop json ''lines'')) (\<lambda>m.
       let sz = or_default n (Fin (of_nat SIZE));
           ln = or_default m (Fin (of_nat REQUIRED_LINES))
       in Inr \<lparr>cats = obj, size_cfg = sz, lines = ln, ord = Some names\<rparr>))))))"

text \<open>
  The player page derives the order in which it shows the categories:
  \<^verbatim>\<open>const cats = data.cats;
  const ord = (data.ord && data.ord.length ? data.ord : Object.keys(cats))
                .filter((n) => !!cats[n]);\<close>
\<close>

definition displayOrder :: "config \<Rightarrow> string list" where
  "displayOrder data =
     filter (\<lambda>n. cats_truthy (cats data) n)
       (case ord data of
          Some names \<Rightarrow> if names \<noteq> [] then names else cats_keys (cats data)
        | None \<Rightarrow> cats_keys (cats data))"

section \<open>An engine for the examples\<close>

text \<open>
  The examples need one engine. This one follows ECMAScript where printing and reading
  are exact: it prints NaN, the infinities, zero and the integers below \<open>2^53\<close>, and
  reads blank strings and strings of at most fifteen decimal digits. It says nothing
  about any other number or string.
\<close>

definition isDigit :: "char \<Rightarrow> bool" where
  "isDigit ch = (48 \<le> (of_char ch :: nat) \<and> (of_char ch :: nat) \<le> 57)"

definition decimal_value :: "string \<Rightarrow> nat" where
  "decimal_value s = fold (\<lambda>ch v. 10 * v + (of_char ch - 48)) s 0"

definition integer_NumberToString :: "jsnum \<Rightarrow> string" where
  "integer_NumberToString n =
     (case n of
        NaN \<Rightarrow> ''NaN''
      | PosInf \<Rightarrow> ''Infinity''
      | NegInf \<Rightarrow> ''-Infinity''
      | NegZero \<Rightarrow> ''0''
      | Fin q \<Rightarrow>
          if q \<in> \<int> \<and> \<bar>q\<bar> < 2 ^ 53
          then (if q < 0 then ''-'' else []) @ decimal (nat \<bar>\<lfloor>q\<rfloor>\<bar>)
          else undefined)"

definition integer_StringToNumber :: "string \<Rightarrow> jsnum" where
  "integer_StringToNumber s =
     (let t = trim s
      in if t = [] then Fin 0
         else if list_all isDigit t \<and> length t \<le> 15 then Fin (of_nat (decimal_value t))
         else undefined)"

definition integer_engine :: engine where
  "integer_engine =
     \<lparr>NumberToString = integer_NumberToString, StringToNumber = integer_StringToNumber\<rparr>"

section \<open>The notions of the specification\<close>

text \<open>
  A word list is a sequence of non-empty trimmed strings: no word starts or ends with
  white space.
\<close>

definition trimmed :: "string \<Rightarrow> bool" where
  "trimmed w = (w \<noteq> [] \<and> \<not> isWhiteSpace (hd w) \<and> \<not> isWhiteSpace (last w))"

definition wordList :: "string list \<Rightarrow> bool" where
  "wordList ws = list_all trimmed ws"

text \<open>The row-major layout of sixteen picks in four rows of four cells.\<close>

definition layout :: "string list \<Rightarrow> string list list" where
  "layout picks = map (\<lambda>r. map (\<lambda>i. picks ! i) [r * SIZE..<r * SIZE + SIZE]) [0..<SIZE]"

text \<open>A mark matrix has four rows of four cells.\<close>

definition matrix4 :: "bool list list \<Rightarrow> bool" where
  "matrix4 M = (length M = 4 \<and> list_all (\<lambda>row. length row = 4) M)"

text \<open>
  The ten lines of a card, as lists of coordinates: four rows, four columns, the
  diagonal from the top left and the diagonal from the top right. A line is completed
  when each of its cells is marked, and the specification counts the completed lines.
\<close>

definition bingo_lines :: "(nat \<times> nat) list list" where
  "bingo_lines =
     map (\<lambda>r. map (\<lambda>c. (r, c)) [0..<4]) [0..<4]
     @ map (\<lambda>c. map (\<lambda>r. (r, c)) [0..<4]) [0..<4]
     @ [map (\<lambda>i. (i, i)) [0..<4], map (\<lambda>i. (i, 3 - i)) [0..<4]]"

definition line_completed :: "bool list list \<Rightarrow> (nat \<times> nat) list \<Rightarrow> bool" where
  "line_completed M line = list_all (\<lambda>(r, c). M ! r ! c) line"

definition completed_lines :: "bool list list \<Rightarrow> nat" where
  "completed_lines M = length (filter (line_completed M) bingo_lines)"

text \<open>
  The display order as the specification words it: when the raw \<open>ord\<close> field is a list,
  its normalisation without the names that are not categories; otherwise the keys of
  the category mapping.
\<close>

definition stated_display_order :: "engine \<Rightarrow> jsval \<Rightarrow> config \<Rightarrow> error + string list" where
  "stated_display_order E json cfg =
     (if isArr (opt_prop json ''ord'')
      then and_then (normalizeWords E (opt_prop json ''ord''))
             (\<lambda>names. Inr (filter (\<lambda>n. n \<in> set (cats_keys (cats cfg))) names))
      else Inr (cats_keys (cats cfg)))"

text \<open>A mapping is a JSON object.\<close>

fun is_mapping :: "jsval \<Rightarrow> bool" where
  "is_mapping (JObj kvs) = True"
| "is_mapping v = False"

text \<open>
  The values that convert to a string and to a number without a throw: every value but
  an object with a member \<open>toString\<close> and an array that holds such a value. A raw word
  list normalises without a throw when it is no array or each of its elements converts;
  a document does when each of its category values, its \<open>ord\<close> field, its \<open>size\<close> and its
  \<open>lines\<close> do.
\<close>

fun coercible :: "jsval \<Rightarrow> bool" where
  "coercible (JObj kvs) = (''toString'' \<notin> set (map fst kvs))"
| "coercible (JArr xs) = list_all coercible xs"
| "coercible v = True"

fun words_coercible :: "jsval \<Rightarrow> bool" where
  "words_coercible (JArr xs) = list_all coercible xs"
| "words_coercible v = True"

definition category_values :: "jsval \<Rightarrow> jsval list" where
  "category_values json =
     (let c = opt_prop json ''cats'';
          rawCats = (if truthy c \<and> typeof_object c then c else JObj [])
      in case object_keys rawCats of
           Inr ks \<Rightarrow> map (own_prop rawCats) ks
         | Inl e \<Rightarrow> [])"

definition config_coercible :: "jsval \<Rightarrow> bool" where
  "config_coercible json =
     (list_all words_coercible (category_values json)
      \<and> words_coercible (opt_prop json ''ord'')
      \<and> coercible (opt_prop json ''size'')
      \<and> coercible (opt_prop json ''lines''))"

text \<open>A positive number.\<close>

fun positive :: "jsnum \<Rightarrow> bool" where
  "positive PosInf = True"
| "positive (Fin q) = (0 < q)"
| "positive n = False"

section \<open>Shuffle is a permutation into a fresh array\<close>

lemma random_index_le:
  assumes "valid_random rnd"
  shows "nat \<lfloor>rnd k * of_nat (i + 1)\<rfloor> \<le> i"
proof -
  have r: "0 \<le> rnd k" "rnd k < 1" using assms by (auto simp: valid_random_def)
  have "rnd k * of_nat (i + 1) < of_nat (i + 1)"
    using r by (simp add: mult_less_cancel_right2 del: of_nat_add of_nat_Suc)
  then have "\<lfloor>rnd k * of_nat (i + 1)\<rfloor> < int (i + 1)"
    by (simp add: floor_less_iff del: of_nat_add of_nat_Suc)
  then show ?thesis by linarith
qed

lemma length_shuffle_loop: "length (shuffle_loop rnd k n a) = length a"
  by (induction n arbitrary: k a) (simp_all add: Let_def)

lemma mset_shuffle_loop:
  "valid_random rnd \<Longrightarrow> n < length a \<Longrightarrow> mset (shuffle_loop rnd k n a) = mset a"
proof (induction n arbitrary: k a)
  case 0
  then show ?case by simp
next
  case (Suc n)
  let ?j = "nat \<lfloor>rnd k * of_nat (Suc n + 1)\<rfloor>"
  have j: "?j \<le> Suc n" using random_index_le [OF Suc.prems(1)] by blast
  have sw: "mset (a[Suc n := a ! ?j, ?j := a ! Suc n]) = mset a"
    using Suc.prems(2) j by (simp add: mset_swap)
  have "mset (shuffle_loop rnd (Suc k) n (a[Suc n := a ! ?j, ?j := a ! Suc n]))
        = mset (a[Suc n := a ! ?j, ?j := a ! Suc n])"
    using Suc.prems by (intro Suc.IH) simp_all
  with sw show ?case by (simp add: Let_def)
qed

lemma length_shuffle: "length (shuffle rnd arr) = length arr"
  by (simp add: shuffle_def length_shuffle_loop)

lemma mset_shuffle: "valid_random rnd \<Longrightarrow> mset (shuffle rnd arr) = mset arr"
  by (cases "arr = []") (simp_all add: shuffle_def mset_shuffle_loop)

lemma shuffle_loop_ref_eq:
  "a < length h \<Longrightarrow> shuffle_loop_ref rnd k n a h = h[a := shuffle_loop rnd k n (h ! a)]"
  by (induction n arbitrary: k h) (simp_all add: Let_def)

lemma shuffle_ref_eq:
  "shuffle_ref rnd h arr = (length h, h @ [shuffle rnd (h ! arr)])"
  by (simp add: shuffle_ref_def Let_def shuffle_loop_ref_eq shuffle_def)

text \<open>
  C10. For every store, every array \<open>arr\<close> in it and every sequence of random draws in
  [0, 1), \<open>shuffle\<close> returns a reference to a new array that is a permutation of the
  array at \<open>arr\<close> (same elements with the same multiplicities, same length), and every
  array that was in the store before the call, the argument among them, is unchanged.
\<close>

theorem shuffle_permutation:
  assumes "valid_random rnd" and "arr < length h"
  shows "fst (shuffle_ref rnd h arr) = length h
         \<and> length (snd (shuffle_ref rnd h arr)) = Suc (length h)
         \<and> take (length h) (snd (shuffle_ref rnd h arr)) = h
         \<and> snd (shuffle_ref rnd h arr) ! arr = h ! arr
         \<and> snd (shuffle_ref rnd h arr) ! fst (shuffle_ref rnd h arr) = shuffle rnd (h ! arr)
         \<and> mset (shuffle rnd (h ! arr)) = mset (h ! arr)
         \<and> length (shuffle rnd (h ! arr)) = length (h ! arr)"
  using assms by (simp add: shuffle_ref_eq mset_shuffle length_shuffle nth_append)

theorem shuffle_permutation_witness:
  "valid_random (\<lambda>k. 1 / 2)
   \<and> (0 :: nat) < length [[1, 2, 3 :: nat], [4, 5]]
   \<and> shuffle_ref (\<lambda>k. 1 / 2) [[1, 2, 3 :: nat], [4, 5]] 0 = (2, [[1, 2, 3], [4, 5], [1, 3, 2]])
   \<and> mset (shuffle (\<lambda>k. 1 / 2) [1, 2, 3 :: nat]) = mset [1, 2, 3]"
proof -
  have v: "valid_random (\<lambda>k. 1 / 2)" by (simp add: valid_random_def)
  have l: "(0 :: nat) < length [[1, 2, 3 :: nat], [4, 5]]" by simp
  have e: "shuffle_ref (\<lambda>k. 1 / 2) [[1, 2, 3 :: nat], [4, 5]] 0 = (2, [[1, 2, 3], [4, 5], [1, 3, 2]])"
    by code_simp
  from shuffle_permutation [OF v l]
  have "mset (shuffle (\<lambda>k. 1 / 2) [1, 2, 3 :: nat]) = mset [1, 2, 3]" by simp
  with v l e show ?thesis by simp
qed

section \<open>Sequencing\<close>

lemma and_then_Inr [simp]: "and_then (Inr x) f = f x"
  by (simp add: and_then_def)

lemma and_then_Inl [simp]: "and_then (Inl e) f = Inl e"
  by (simp add: and_then_def)

lemma and_then_eq_Inr:
  "and_then m f = Inr y \<longleftrightarrow> (\<exists>x. m = Inr x \<and> f x = Inr y)"
  by (cases m) simp_all

lemma collect_eq_Inr:
  "collect rs = Inr ys \<longleftrightarrow> rs = map Inr ys"
proof (induction rs arbitrary: ys)
  case Nil
  then show ?case by auto
next
  case (Cons r rs)
  show ?case
  proof (cases r)
    case (Inl e)
    then show ?thesis by auto
  next
    case (Inr x)
    then show ?thesis
      by (cases ys) (auto simp: and_then_eq_Inr Cons.IH)
  qed
qed

lemma collect_Inl:
  "collect rs = Inl e \<Longrightarrow> Inl e \<in> set rs"
proof (induction rs)
  case Nil
  then show ?case by simp
next
  case (Cons r rs)
  then show ?case
    by (cases r; cases "collect rs") auto
qed

lemma collect_cases:
  "(\<exists>ys. collect rs = Inr ys) \<or> (\<exists>e. collect rs = Inl e \<and> Inl e \<in> set rs)"
  by (cases "collect rs") (auto dest: collect_Inl)

lemma collect_ok_iff:
  "(\<exists>ys. collect (map g xs) = Inr ys) \<longleftrightarrow> (\<forall>x \<in> set xs. \<exists>y. g x = Inr y)"
proof
  assume "\<exists>ys. collect (map g xs) = Inr ys"
  then obtain ys where "map g xs = map Inr ys" by (auto simp: collect_eq_Inr)
  then have "\<forall>x \<in> set xs. g x \<in> set (map Inr ys)"
    by (metis image_eqI list.set_map)
  then show "\<forall>x \<in> set xs. \<exists>y. g x = Inr y" by auto
next
  assume a: "\<forall>x \<in> set xs. \<exists>y. g x = Inr y"
  have "map g xs = map Inr (map (\<lambda>x. projr (g x)) xs)"
    using a by (induction xs) auto
  then have "collect (map g xs) = Inr (map (\<lambda>x. projr (g x)) xs)"
    by (simp only: collect_eq_Inr)
  then show "\<exists>ys. collect (map g xs) = Inr ys" by blast
qed

lemma for_each_pure:
  assumes "\<And>i s. body i s = Inr (f i s)"
  shows "for_each xs s body = Inr (fold f xs s)"
  by (induction xs arbitrary: s) (simp_all add: assms)

section \<open>Properties of string conversion\<close>

lemma ToString_error: "ToString E v = Inl e \<Longrightarrow> e = TypeError"
proof (induction E v arbitrary: e rule: ToString.induct)
  case (6 E xs)
  let ?g = "\<lambda>x. if x = JUndefined \<or> x = JNull then Inr [] else ToString E x"
  from "6.prems" have "collect (map ?g xs) = Inl e"
    by (cases "collect (map ?g xs)") simp_all
  then have "Inl e \<in> set (map ?g xs)" by (rule collect_Inl)
  then obtain x where "x \<in> set xs" and "?g x = Inl e" by auto
  then show ?case using "6.IH" by (auto split: if_splits)
qed (auto split: if_splits)

lemma ToString_ok_iff: "(\<exists>s. ToString E v = Inr s) \<longleftrightarrow> coercible v"
proof (induction E v rule: ToString.induct)
  case (6 E xs)
  let ?g = "\<lambda>x. if x = JUndefined \<or> x = JNull then Inr [] else ToString E x"
  have "(\<exists>s. ToString E (JArr xs) = Inr s) \<longleftrightarrow> (\<exists>ss. collect (map ?g xs) = Inr ss)"
    by (auto simp: and_then_eq_Inr)
  also have "\<dots> \<longleftrightarrow> (\<forall>x \<in> set xs. \<exists>y. ?g x = Inr y)"
    by (rule collect_ok_iff)
  also have "\<dots> \<longleftrightarrow> (\<forall>x \<in> set xs. coercible x)"
    using "6.IH" by (intro ball_cong refl) auto
  finally show ?case by (simp add: list_all_iff)
qed auto

lemma S_ok_iff: "(\<exists>s. S E v = Inr s) \<longleftrightarrow> coercible v"
  by (cases "v = JUndefined \<or> v = JNull") (auto simp: S_def ToString_ok_iff)

lemma S_error: "S E v = Inl e \<Longrightarrow> e = TypeError"
  by (auto simp: S_def dest: ToString_error split: if_splits)

lemma S_JStr: "S E (JStr s) = Inr s"
  by (simp add: S_def)

lemma normalizeWords_ok_iff:
  "(\<exists>ws. normalizeWords E raw = Inr ws) \<longleftrightarrow> words_coercible raw"
proof (cases raw)
  case (JArr xs)
  have "(\<exists>ws. normalizeWords E (JArr xs) = Inr ws) \<longleftrightarrow> (\<exists>ss. collect (map (S E) xs) = Inr ss)"
    by (auto simp: and_then_eq_Inr)
  also have "\<dots> \<longleftrightarrow> (\<forall>x \<in> set xs. \<exists>y. S E x = Inr y)"
    by (rule collect_ok_iff)
  also have "\<dots> \<longleftrightarrow> list_all coercible xs"
    by (simp add: S_ok_iff list_all_iff)
  finally show ?thesis using JArr by simp
qed simp_all

lemma normalizeWords_error: "normalizeWords E raw = Inl e \<Longrightarrow> e = TypeError"
proof (cases raw)
  case (JArr xs)
  assume "normalizeWords E raw = Inl e"
  with JArr have "collect (map (S E) xs) = Inl e"
    by (cases "collect (map (S E) xs)") simp_all
  then have "Inl e \<in> set (map (S E) xs)" by (rule collect_Inl)
  then obtain x where "S E x = Inl e" by auto
  then show ?thesis by (rule S_error)
qed simp_all

lemma normalizeWords_throws_iff:
  "normalizeWords E raw = Inl TypeError \<longleftrightarrow> \<not> words_coercible raw"
proof -
  have "(\<exists>ws. normalizeWords E raw = Inr ws) \<or> normalizeWords E raw = Inl TypeError"
    by (cases "normalizeWords E raw") (auto dest: normalizeWords_error)
  then show ?thesis using normalizeWords_ok_iff [of E raw] by auto
qed

section \<open>Properties of word-list normalisation\<close>

lemma trim_trimmed: "trimmed w \<Longrightarrow> trim w = w"
proof -
  assume t: "trimmed w"
  then obtain x xs where w: "w = x # xs" by (cases w) (auto simp: trimmed_def)
  have 1: "dropWhile isWhiteSpace w = w" using t w by (simp add: trimmed_def)
  have "rev w = rev (butlast w @ [last w])" using w by simp
  then have r: "rev w = last w # rev (butlast w)" by simp
  have 2: "dropWhile isWhiteSpace (rev w) = rev w"
    unfolding r using t by (simp add: trimmed_def)
  show ?thesis by (simp add: trim_def 1 2)
qed

lemma trim_frame:
  "\<exists>pre post. s = pre @ trim s @ post \<and> list_all isWhiteSpace pre \<and> list_all isWhiteSpace post"
proof -
  let ?d = "dropWhile isWhiteSpace s"
  let ?post = "rev (takeWhile isWhiteSpace (rev ?d))"
  have "rev (dropWhile isWhiteSpace (rev ?d)) @ ?post
        = rev (takeWhile isWhiteSpace (rev ?d) @ dropWhile isWhiteSpace (rev ?d))"
    by (simp only: rev_append)
  also have "\<dots> = ?d" by simp
  finally have x: "rev (dropWhile isWhiteSpace (rev ?d)) @ ?post = ?d" .
  have d: "?d = trim s @ ?post"
    unfolding trim_def by (rule x [symmetric])
  have "s = takeWhile isWhiteSpace s @ ?d" by simp
  with d have 1: "s = takeWhile isWhiteSpace s @ trim s @ ?post" by simp
  have 2: "list_all isWhiteSpace (takeWhile isWhiteSpace s)"
    by (auto simp: list_all_iff dest: set_takeWhileD)
  have 3: "list_all isWhiteSpace ?post"
    by (auto simp: list_all_iff dest: set_takeWhileD)
  from 1 2 3 show ?thesis by blast
qed

lemma last_dropWhile: "dropWhile P xs \<noteq> [] \<Longrightarrow> last (dropWhile P xs) = last xs"
  by (metis last_appendR takeWhile_dropWhile_id)

lemma trim_ends: "trim s \<noteq> [] \<Longrightarrow> trimmed (trim s)"
proof -
  let ?d = "dropWhile isWhiteSpace s"
  let ?e = "dropWhile isWhiteSpace (rev ?d)"
  assume "trim s \<noteq> []"
  then have e: "?e \<noteq> []" by (simp add: trim_def)
  have d: "?d \<noteq> []"
  proof
    assume a: "?d = []"
    have "?e = []" unfolding a by simp
    with e show False by contradiction
  qed
  have "last (trim s) = hd ?e" using e by (simp add: trim_def last_rev)
  then have 1: "\<not> isWhiteSpace (last (trim s))" using e hd_dropWhile by metis
  have "hd (trim s) = last ?e" using e by (simp add: trim_def hd_rev)
  also have "\<dots> = last (rev ?d)" using e by (rule last_dropWhile)
  also have "\<dots> = hd ?d" using d by (simp add: last_rev)
  finally have 2: "\<not> isWhiteSpace (hd (trim s))" using d hd_dropWhile by metis
  from 1 2 \<open>trim s \<noteq> []\<close> show ?thesis by (simp add: trimmed_def)
qed

lemma collect_strings: "collect (map (S E \<circ> JStr) ws) = Inr ws"
  by (simp add: collect_eq_Inr comp_def S_JStr)

lemma normalizeWords_strings:
  "normalizeWords E (JArr (map JStr ws)) = Inr (filter (\<lambda>w. w \<noteq> []) (map trim ws))"
  by (simp add: collect_strings)

lemma filter_trim_wordList: "wordList ws \<Longrightarrow> filter (\<lambda>w. w \<noteq> []) (map trim ws) = ws"
  by (induction ws) (auto simp: wordList_def trim_trimmed trimmed_def)

lemma normalizeWords_wordList:
  "wordList ws \<Longrightarrow> normalizeWords E (JArr (map JStr ws)) = Inr ws"
  by (simp only: normalizeWords_strings filter_trim_wordList)

lemma wordList_normalizeWords: "normalizeWords E raw = Inr ws \<Longrightarrow> wordList ws"
  by (cases raw) (auto simp: wordList_def list_all_iff trim_ends and_then_eq_Inr)

text \<open>
  What \<open>normalizeWords\<close> returns when no conversion throws: the empty list off arrays;
  on an array, the trimmed strings of the elements without the empty ones, in order.
  \<open>S\<close> sends \<open>null\<close> and \<open>undefined\<close> to the empty string, a string to itself, a boolean
  to its name, a number to its print, an array to its joined elements and an object
  without a member \<open>toString\<close> to \<open>[object Object]\<close>.
\<close>

lemma normalizeWords_rule:
  "\<not> isArr raw \<Longrightarrow> normalizeWords E raw = Inr []"
  "collect (map (S E) xs) = Inr ss \<Longrightarrow>
   normalizeWords E (JArr xs) = Inr (filter (\<lambda>w. w \<noteq> []) (map trim ss))"
  by (cases raw) simp_all

lemma S_values:
  "S E JNull = Inr []"
  "S E JUndefined = Inr []"
  "S E (JStr s) = Inr s"
  "S E (JBool True) = Inr ''true''"
  "S E (JBool False) = Inr ''false''"
  "S E (JNum n) = Inr (NumberToString E n)"
  "S E (JArr [JStr ''a'', JNull, JArr [JStr ''b'', JStr ''c'']]) = Inr ''a,,b,c''"
  "''toString'' \<notin> set (map fst kvs) \<Longrightarrow> S E (JObj kvs) = Inr ''[object Object]''"
  "''toString'' \<in> set (map fst kvs) \<Longrightarrow> S E (JObj kvs) = Inl TypeError"
  by (simp_all add: S_def)

lemma normalizeWords_example:
  "normalizeWords E (JArr [JStr ''x'', JStr ''y'', JNull, JStr ''  z  '', JStr ''y''])
   = Inr [''x'', ''y'', ''z'', ''y'']"
  by (simp add: S_def trim_def isWhiteSpace_def)

text \<open>
  C6. \<open>normalizeWords\<close> is to return a list of strings for every input value; its
  comment says so (a string array, whatever comes in). On a list that holds an object
  with a member \<open>toString\<close> it throws a \<open>TypeError\<close> out of \<open>String(v ?? "")\<close> instead of
  returning a list.
\<close>

theorem normalizeWords_throws:
  "normalizeWords integer_engine (JArr [JStr ''x'', JObj [(''toString'', JNum (Fin 1))]])
   = Inl TypeError"
  by (simp add: S_def)

section \<open>Properties of card generation\<close>

lemma row_fold:
  "fold (\<lambda>c (row, idx). (row @ [f idx], Suc idx)) cs (row0, idx0)
   = (row0 @ map f [idx0..<idx0 + length cs], idx0 + length cs)"
proof (induction cs arbitrary: row0 idx0)
  case Nil
  then show ?case by simp
next
  case (Cons c cs)
  have "[idx0..<idx0 + length (c # cs)] = idx0 # [Suc idx0..<Suc idx0 + length cs]"
    by (simp add: upt_conv_Cons del: upt_Suc)
  then show ?case by (simp add: Cons.IH del: upt_Suc)
qed

lemma row_loop_eq:
  "row_loop E picks idx = Inr (map (\<lambda>i. picks ! i) [idx..<idx + SIZE], idx + SIZE)"
proof -
  have "row_loop E picks idx
        = Inr (fold (\<lambda>c (row, idx). (row @ [picks ! idx], Suc idx)) [0..<SIZE] ([], idx))"
    unfolding row_loop_def by (rule for_each_pure) (simp add: S_JStr split: prod.splits)
  then show ?thesis by (simp add: row_fold)
qed

lemma grid_fold:
  "fold (\<lambda>r (grid, idx). (grid @ [g idx], idx + n)) rs (grid0, idx0)
   = (grid0 @ map (\<lambda>m. g (idx0 + m * n)) [0..<length rs], idx0 + length rs * n)"
proof (induction rs arbitrary: grid0 idx0)
  case Nil
  then show ?case by simp
next
  case (Cons r rs)
  have "[0..<length (r # rs)] = 0 # map Suc [0..<length rs]"
    by (simp add: upt_conv_Cons map_Suc_upt del: upt_Suc)
  then have "map (\<lambda>m. g (idx0 + m * n)) [0..<length (r # rs)]
        = g idx0 # map (\<lambda>m. g (idx0 + n + m * n)) [0..<length rs]"
    by (simp add: comp_def add.assoc del: upt_Suc)
  then show ?case by (simp add: Cons.IH add.assoc del: upt_Suc)
qed

lemma grid_loop_eq: "grid_loop E picks = Inr (layout picks, SIZE * SIZE)"
proof -
  have "grid_loop E picks
        = Inr (fold (\<lambda>r (grid, idx). (grid @ [map (\<lambda>i. picks ! i) [idx..<idx + SIZE]], idx + SIZE))
                 [0..<SIZE] ([], 0))"
    unfolding grid_loop_def by (rule for_each_pure) (simp add: row_loop_eq split: prod.splits)
  then show ?thesis
    by (simp add: layout_def
        grid_fold [where g = "\<lambda>idx. map (\<lambda>i. picks ! i) [idx..<idx + SIZE]" and n = SIZE])
qed

lemma concat_blocks:
  "concat (map (\<lambda>r. map f [r * n..<r * n + n]) [0..<m]) = map f [0..<m * n]"
proof (induction m)
  case 0
  then show ?case by simp
next
  case (Suc m)
  have "[0..<m * n + n] = [0..<m * n] @ [m * n..<m * n + n]"
    by (metis upt_add_eq_append zero_le)
  then show ?case using Suc by (simp add: add.commute)
qed

lemma concat_layout:
  "length picks = SIZE * SIZE \<Longrightarrow> concat (layout picks) = picks"
  by (simp add: layout_def concat_blocks) (metis map_nth)

lemma layout_cell:
  "r < SIZE \<Longrightarrow> c < SIZE \<Longrightarrow> layout picks ! r ! c = picks ! (r * SIZE + c)"
  by (simp add: layout_def)

lemma layout_rows:
  "length (layout picks) = SIZE"
  "row \<in> set (layout picks) \<Longrightarrow> length row = SIZE"
  by (auto simp: layout_def)

lemma mset_take_subset: "mset (take n xs) \<subseteq># mset xs"
  by (metis append_take_drop_id mset_append mset_subset_eq_add_left)

lemma generateCard_raw:
  assumes rnd: "valid_random rnd" and W: "normalizeWords E raw = Inr W" and len: "16 \<le> length W"
  defines "picks \<equiv> take 16 (shuffle rnd W)"
  shows "generateCard E rnd raw = Inr (layout picks)"
    and "length picks = 16"
    and "concat (layout picks) = picks"
    and "mset picks \<subseteq># mset W"
    and "distinct W \<Longrightarrow> distinct picks"
proof -
  show "generateCard E rnd raw = Inr (layout picks)"
    using len by (simp add: generateCard_def W SIZE_def Let_def picks_def grid_loop_eq)
  show lp: "length picks = 16"
    using len by (simp add: picks_def length_shuffle)
  show "concat (layout picks) = picks"
    using lp by (simp add: concat_layout SIZE_def)
  have "mset picks \<subseteq># mset (shuffle rnd W)"
    unfolding picks_def by (rule mset_take_subset)
  then show "mset picks \<subseteq># mset W"
    by (simp add: mset_shuffle [OF rnd])
  assume "distinct W"
  then have "distinct (shuffle rnd W)"
    using mset_shuffle [OF rnd, of W] by (metis mset_eq_imp_distinct_iff)
  then show "distinct picks" by (simp add: picks_def)
qed

text \<open>
  C1. For every word list \<open>W\<close> with at least 16 entries and every sequence of random
  draws in [0, 1), \<open>generateCard\<close> returns a grid of 4 rows of 4 cells, laid out
  row-major from the first 16 elements of the shuffled list; its 16 cells, as a
  multiset, are contained in the multiset of the entries of \<open>W\<close>; and when \<open>W\<close> has no
  duplicates the cells are pairwise distinct.
\<close>

theorem generateCard_grid:
  assumes "valid_random rnd" and "wordList W" and "16 \<le> length W"
  shows "\<exists>grid. generateCard E rnd (JArr (map JStr W)) = Inr grid
           \<and> length grid = 4 \<and> (\<forall>row \<in> set grid. length row = 4)
           \<and> (\<forall>r < 4. \<forall>c < 4. grid ! r ! c = take 16 (shuffle rnd W) ! (r * 4 + c))
           \<and> size (mset (concat grid)) = 16
           \<and> mset (concat grid) \<subseteq># mset W
           \<and> (distinct W \<longrightarrow> distinct (concat grid))"
proof -
  let ?raw = "JArr (map JStr W)"
  let ?picks = "take 16 (shuffle rnd W)"
  let ?grid = "layout ?picks"
  have W: "normalizeWords E ?raw = Inr W"
    using assms(2) by (rule normalizeWords_wordList)
  note g = generateCard_raw [OF assms(1) W assms(3)]
  have 1: "generateCard E rnd ?raw = Inr ?grid" by (rule g(1))
  have 2: "length ?grid = 4" "\<forall>row \<in> set ?grid. length row = 4"
    using layout_rows [where picks = ?picks] by (simp_all add: SIZE_def)
  have 3: "\<forall>r < 4. \<forall>c < 4. ?grid ! r ! c = ?picks ! (r * 4 + c)"
    using layout_cell [where picks = ?picks] by (simp add: SIZE_def)
  have 4: "size (mset (concat ?grid)) = 16"
    using g(2) g(3) by simp
  have 5: "mset (concat ?grid) \<subseteq># mset W"
    using g(3) g(4) by simp
  have 6: "distinct W \<longrightarrow> distinct (concat ?grid)"
    using g(3) g(5) by simp
  from 1 2 3 4 5 6 show ?thesis by blast
qed

theorem generateCard_grid_witness:
  "valid_random (\<lambda>k. 1 / 2)
   \<and> wordList [''cat'', ''dog'', ''fox'', ''owl'', ''bee'', ''ant'', ''cow'', ''pig'', ''rat'',
        ''bat'', ''elk'', ''ram'', ''hen'', ''yak'', ''boa'', ''eel'', ''emu'']
   \<and> 16 \<le> length [''cat'', ''dog'', ''fox'', ''owl'', ''bee'', ''ant'', ''cow'', ''pig'', ''rat'',
        ''bat'', ''elk'', ''ram'', ''hen'', ''yak'', ''boa'', ''eel'', ''emu'']
   \<and> generateCard integer_engine (\<lambda>k. 1 / 2)
        (JArr (map JStr [''cat'', ''dog'', ''fox'', ''owl'', ''bee'', ''ant'', ''cow'', ''pig'',
           ''rat'', ''bat'', ''elk'', ''ram'', ''hen'', ''yak'', ''boa'', ''eel'', ''emu'']))
       = Inr [[''cat'', ''bat'', ''dog'', ''yak''],
              [''fox'', ''ram'', ''owl'', ''eel''],
              [''bee'', ''elk'', ''ant'', ''hen''],
              [''cow'', ''boa'', ''pig'', ''emu'']]
   \<and> mset [''cat'', ''bat'', ''dog'', ''yak'', ''fox'', ''ram'', ''owl'', ''eel'',
            ''bee'', ''elk'', ''ant'', ''hen'', ''cow'', ''boa'', ''pig'', ''emu'']
       \<subseteq># mset [''cat'', ''dog'', ''fox'', ''owl'', ''bee'', ''ant'', ''cow'', ''pig'', ''rat'',
        ''bat'', ''elk'', ''ram'', ''hen'', ''yak'', ''boa'', ''eel'', ''emu'']"
proof -
  let ?W = "[''cat'', ''dog'', ''fox'', ''owl'', ''bee'', ''ant'', ''cow'', ''pig'', ''rat'',
        ''bat'', ''elk'', ''ram'', ''hen'', ''yak'', ''boa'', ''eel'', ''emu'']"
  have v: "valid_random (\<lambda>k. 1 / 2)" by (simp add: valid_random_def)
  have w: "wordList ?W" by code_simp
  have l: "16 \<le> length ?W" by simp
  have g: "generateCard integer_engine (\<lambda>k. 1 / 2) (JArr (map JStr ?W))
       = Inr [[''cat'', ''bat'', ''dog'', ''yak''],
              [''fox'', ''ram'', ''owl'', ''eel''],
              [''bee'', ''elk'', ''ant'', ''hen''],
              [''cow'', ''boa'', ''pig'', ''emu'']]"
    by code_simp
  from generateCard_grid [OF v w l, of integer_engine]
  obtain grid where "generateCard integer_engine (\<lambda>k. 1 / 2) (JArr (map JStr ?W)) = Inr grid"
    and "mset (concat grid) \<subseteq># mset ?W"
    by blast
  with g have "mset (concat [[''cat'', ''bat'', ''dog'', ''yak''],
              [''fox'', ''ram'', ''owl'', ''eel''],
              [''bee'', ''elk'', ''ant'', ''hen''],
              [''cow'', ''boa'', ''pig'', ''emu'']]) \<subseteq># mset ?W"
    by simp
  then have m: "mset [''cat'', ''bat'', ''dog'', ''yak'', ''fox'', ''ram'', ''owl'', ''eel'',
            ''bee'', ''elk'', ''ant'', ''hen'', ''cow'', ''boa'', ''pig'', ''emu''] \<subseteq># mset ?W"
    by (simp only: concat.simps append.simps)
  from v w l g m show ?thesis by (intro conjI)
qed

text \<open>
  C2. When the normalised word list has fewer than 16 entries, \<open>generateCard\<close> throws
  the error that carries the required count 16 and the actual count, whatever the
  random draws; no grid is returned. This covers every word list of fewer than 16
  entries, which normalisation returns as it is.
\<close>

theorem generateCard_insufficient:
  assumes "normalizeWords E raw = Inr words" and "length words < 16"
  shows "generateCard E rnd raw = Inl (Error 16 (length words))
         \<and> (\<forall>grid. generateCard E rnd raw \<noteq> Inr grid)
         \<and> (wordList W \<and> length W < 16 \<longrightarrow>
              generateCard E rnd (JArr (map JStr W)) = Inl (Error 16 (length W)))"
proof -
  have short: "generateCard E rnd v = Inl (Error 16 (length ws))"
    if "normalizeWords E v = Inr ws" and "length ws < 16" for v ws
    using that by (simp add: generateCard_def SIZE_def Let_def)
  have 1: "generateCard E rnd raw = Inl (Error 16 (length words))"
    using assms by (rule short)
  have 2: "wordList W \<and> length W < 16 \<longrightarrow>
      generateCard E rnd (JArr (map JStr W)) = Inl (Error 16 (length W))"
    using short [OF normalizeWords_wordList] by blast
  from 1 2 show ?thesis by simp
qed

theorem generateCard_insufficient_witness:
  "normalizeWords integer_engine (JArr [JStr ''a'', JNull, JStr ''  '', JStr '' b''])
     = Inr [''a'', ''b'']
   \<and> length [''a'', ''b''] < 16
   \<and> generateCard integer_engine (\<lambda>k. 0) (JArr [JStr ''a'', JNull, JStr ''  '', JStr '' b''])
       = Inl (Error 16 2)"
proof -
  have n: "normalizeWords integer_engine (JArr [JStr ''a'', JNull, JStr ''  '', JStr '' b''])
      = Inr [''a'', ''b'']"
    by code_simp
  have l: "length [''a'', ''b''] < 16" by simp
  from generateCard_insufficient [OF n l, of "\<lambda>k. 0"] n l show ?thesis by simp
qed

section \<open>Properties of the line count\<close>

lemma upt4: "[0..<4] = [0, 1, 2, 3]"
  by (simp add: upt_rec)

lemma length4E:
  assumes "length xs = 4"
  obtains a b c d where "xs = [a, b, c, d]"
  using assms by (auto simp: length_Suc_conv eval_nat_numeral)

lemma matrix4E:
  assumes "matrix4 M"
  obtains a0 a1 a2 a3 b0 b1 b2 b3 c0 c1 c2 c3 d0 d1 d2 d3
  where "M = [[a0, a1, a2, a3], [b0, b1, b2, b3], [c0, c1, c2, c3], [d0, d1, d2, d3]]"
proof -
  from assms obtain ra rb rc rd where M: "M = [ra, rb, rc, rd]"
    by (auto simp: matrix4_def elim: length4E)
  with assms have "length ra = 4" "length rb = 4" "length rc = 4" "length rd = 4"
    by (simp_all add: matrix4_def)
  then show thesis using M that by (metis length4E)
qed

lemma bump: "(if b then n + 1 else n) = n + (of_bool b :: nat)"
  by simp

lemma length_filter_Cons: "length (filter P (x # xs)) = of_bool (P x) + length (filter P xs)"
  by simp

lemma count_explicit:
  "countCompletedLines [[a0, a1, a2, a3], [b0, b1, b2, b3], [c0, c1, c2, c3], [d0, d1, d2, d3]]
   = Inr (completed_lines [[a0, a1, a2, a3], [b0, b1, b2, b3], [c0, c1, c2, c3], [d0, d1, d2, d3]])"
proof -
  let ?M = "[[a0, a1, a2, a3], [b0, b1, b2, b3], [c0, c1, c2, c3], [d0, d1, d2, d3]]"
  have rows: "count_rows ?M n = Inr (n + of_bool (a0 \<and> a1 \<and> a2 \<and> a3) + of_bool (b0 \<and> b1 \<and> b2 \<and> b3)
        + of_bool (c0 \<and> c1 \<and> c2 \<and> c3) + of_bool (d0 \<and> d1 \<and> d2 \<and> d3))" for n
    by (simp add: count_rows_def SIZE_def upt4 and_then_def row_of_def bump)
  have col: "column_ok ?M c = Inr (cell_of [a0, a1, a2, a3] c \<and> cell_of [b0, b1, b2, b3] c
        \<and> cell_of [c0, c1, c2, c3] c \<and> cell_of [d0, d1, d2, d3] c)" for c
    by (auto simp add: column_ok_def SIZE_def upt4 and_then_def row_of_def)
  have cols: "count_cols ?M n = Inr (n + of_bool (a0 \<and> b0 \<and> c0 \<and> d0) + of_bool (a1 \<and> b1 \<and> c1 \<and> d1)
        + of_bool (a2 \<and> b2 \<and> c2 \<and> d2) + of_bool (a3 \<and> b3 \<and> c3 \<and> d3))" for n
    by (simp add: count_cols_def SIZE_def upt4 and_then_def col cell_of_def bump)
  have diag: "diagonals ?M = Inr (a0 \<and> b1 \<and> c2 \<and> d3, a3 \<and> b2 \<and> c1 \<and> d0)"
    by (auto simp add: diagonals_def SIZE_def upt4 and_then_def row_of_def cell_of_def)
  have spec: "completed_lines ?M = of_bool (a0 \<and> a1 \<and> a2 \<and> a3) + of_bool (b0 \<and> b1 \<and> b2 \<and> b3)
        + of_bool (c0 \<and> c1 \<and> c2 \<and> c3) + of_bool (d0 \<and> d1 \<and> d2 \<and> d3)
        + of_bool (a0 \<and> b0 \<and> c0 \<and> d0) + of_bool (a1 \<and> b1 \<and> c1 \<and> d1)
        + of_bool (a2 \<and> b2 \<and> c2 \<and> d2) + of_bool (a3 \<and> b3 \<and> c3 \<and> d3)
        + of_bool (a0 \<and> b1 \<and> c2 \<and> d3) + of_bool (a3 \<and> b2 \<and> c1 \<and> d0)"
    unfolding completed_lines_def bingo_lines_def upt4
    by (simp add: line_completed_def length_filter_Cons del: filter.simps)
  show ?thesis
    by (simp add: countCompletedLines_def rows cols diag spec and_then_def bump Let_def)
qed

lemma count_matrix4: "matrix4 M \<Longrightarrow> countCompletedLines M = Inr (completed_lines M)"
  by (auto elim!: matrix4E simp: count_explicit)

lemma completed_lines_le: "completed_lines M \<le> 10"
proof -
  have "length (filter (line_completed M) bingo_lines) \<le> length bingo_lines"
    by (rule length_filter_le)
  also have "length bingo_lines = 10"
    by (simp add: bingo_lines_def)
  finally show ?thesis by (simp add: completed_lines_def)
qed

lemma count_examples:
  "countCompletedLines (replicate 4 (replicate 4 False)) = Inr 0"
  "countCompletedLines (replicate 4 (replicate 4 True)) = Inr 10"
  "countCompletedLines (replicate 4 True # replicate 3 (replicate 4 False)) = Inr 1"
  by (simp_all add: eval_nat_numeral count_explicit completed_lines_def bingo_lines_def upt4
      line_completed_def)

text \<open>
  C3. On a mark matrix of four rows of four cells, \<open>countCompletedLines\<close> returns,
  without throwing, the number of completed lines among the four rows, the four columns
  and the two diagonals. The count is exact: it is 0 on the all-false matrix, 10 (the
  number of lines) on the all-true matrix, and 1 when row 0 alone is marked.
\<close>

theorem countCompletedLines_exact:
  assumes "matrix4 M"
  shows "countCompletedLines M = Inr (completed_lines M)
         \<and> completed_lines M \<le> 10
         \<and> countCompletedLines (replicate 4 (replicate 4 False)) = Inr 0
         \<and> countCompletedLines (replicate 4 (replicate 4 True)) = Inr 10
         \<and> countCompletedLines (replicate 4 True # replicate 3 (replicate 4 False)) = Inr 1"
  using assms by (simp add: count_matrix4 completed_lines_le count_examples)

theorem countCompletedLines_exact_witness:
  "matrix4 [[True, True, True, True], [True, False, True, True],
            [True, True, True, True], [True, True, False, True]]
   \<and> countCompletedLines [[True, True, True, True], [True, False, True, True],
            [True, True, True, True], [True, True, False, True]] = Inr 5"
proof -
  let ?M = "[[True, True, True, True], [True, False, True, True],
            [True, True, True, True], [True, True, False, True]]"
  have m: "matrix4 ?M" by (simp add: matrix4_def)
  have c: "completed_lines ?M = 5" by code_simp
  from countCompletedLines_exact [OF m] c m show ?thesis by simp
qed

section \<open>Properties of toggle\<close>

lemma length_map_index: "length (map_index f xs) = length xs"
  by (simp add: map_index_def)

lemma nth_map_index: "i < length xs \<Longrightarrow> map_index f xs ! i = f (xs ! i) i"
  by (simp add: map_index_def nth_enumerate_eq)

lemma toggle_length: "length (toggle r c M) = length M"
  by (simp add: toggle_def length_map_index)

lemma toggle_row_length: "i < length M \<Longrightarrow> length (toggle r c M ! i) = length (M ! i)"
  by (simp add: toggle_def nth_map_index length_map_index)

lemma toggle_cell:
  "i < length M \<Longrightarrow> j < length (M ! i) \<Longrightarrow>
   toggle r c M ! i ! j = (if i = r \<and> j = c then \<not> M ! i ! j else M ! i ! j)"
  by (simp add: toggle_def nth_map_index)

text \<open>
  C4. Applying \<open>toggle\<close> twice at the same coordinates returns the matrix it started
  from. This holds for every matrix and every pair of coordinates, and so for the
  matrices of four rows of four cells and the coordinates below 4.
\<close>

theorem toggle_self_inverse: "toggle r c (toggle r c M) = M"
proof (rule nth_equalityI)
  show "length (toggle r c (toggle r c M)) = length M"
    by (simp add: toggle_length)
next
  fix i assume "i < length (toggle r c (toggle r c M))"
  then have i: "i < length M" by (simp add: toggle_length)
  show "toggle r c (toggle r c M) ! i = M ! i"
  proof (rule nth_equalityI)
    show "length (toggle r c (toggle r c M) ! i) = length (M ! i)"
      using i by (simp add: toggle_row_length toggle_length)
  next
    fix j assume "j < length (toggle r c (toggle r c M) ! i)"
    then have j: "j < length (M ! i)"
      using i by (simp add: toggle_row_length toggle_length)
    have inner: "toggle r c M ! i ! j = (if i = r \<and> j = c then \<not> M ! i ! j else M ! i ! j)"
      using i j by (rule toggle_cell)
    have outer: "toggle r c (toggle r c M) ! i ! j
        = (if i = r \<and> j = c then \<not> toggle r c M ! i ! j else toggle r c M ! i ! j)"
      using i j by (intro toggle_cell) (simp_all add: toggle_length toggle_row_length)
    show "toggle r c (toggle r c M) ! i ! j = M ! i ! j"
      unfolding outer inner by auto
  qed
qed

theorem toggle_self_inverse_witness:
  "toggle 1 2 [[False, False, False, False], [False, True, False, False],
               [False, False, False, False], [False, False, False, True]]
     = [[False, False, False, False], [False, True, True, False],
        [False, False, False, False], [False, False, False, True]]
   \<and> toggle 1 2 [[False, False, False, False], [False, True, True, False],
                 [False, False, False, False], [False, False, False, True]]
     = [[False, False, False, False], [False, True, False, False],
        [False, False, False, False], [False, False, False, True]]"
proof -
  let ?M = "[[False, False, False, False], [False, True, False, False],
             [False, False, False, False], [False, False, False, True]]"
  have t: "toggle 1 2 ?M = [[False, False, False, False], [False, True, True, False],
        [False, False, False, False], [False, False, False, True]]"
    by code_simp
  from toggle_self_inverse [of 1 2 ?M] t show ?thesis by simp
qed

text \<open>
  C5. On a matrix of four rows of four cells and coordinates \<open>r\<close>, \<open>c\<close> below 4,
  \<open>toggle\<close> returns a matrix of the same shape whose cell \<open>(r, c)\<close> is the negation of
  the old one and whose every other cell is the old one.
\<close>

theorem toggle_frame:
  assumes "matrix4 M" and "r < 4" and "c < 4"
  shows "matrix4 (toggle r c M)
         \<and> toggle r c M ! r ! c = (\<not> M ! r ! c)
         \<and> (\<forall>i < 4. \<forall>j < 4. (i, j) \<noteq> (r, c) \<longrightarrow> toggle r c M ! i ! j = M ! i ! j)"
proof -
  have len: "length M = 4" and rows: "\<And>i. i < 4 \<Longrightarrow> length (M ! i) = 4"
    using assms(1) by (auto simp: matrix4_def list_all_length)
  have "matrix4 (toggle r c M)"
    using len rows by (simp add: matrix4_def list_all_length toggle_length toggle_row_length)
  moreover have "toggle r c M ! r ! c = (\<not> M ! r ! c)"
    using assms(2,3) len rows by (simp add: toggle_cell)
  moreover have "\<forall>i < 4. \<forall>j < 4. (i, j) \<noteq> (r, c) \<longrightarrow> toggle r c M ! i ! j = M ! i ! j"
    using len rows by (auto simp: toggle_cell)
  ultimately show ?thesis by blast
qed

theorem toggle_frame_witness:
  "matrix4 [[False, False, False, False], [False, True, False, False],
            [False, False, False, False], [False, False, False, True]]
   \<and> (3 :: nat) < 4 \<and> (0 :: nat) < 4
   \<and> toggle 3 0 [[False, False, False, False], [False, True, False, False],
                 [False, False, False, False], [False, False, False, True]]
     = [[False, False, False, False], [False, True, False, False],
        [False, False, False, False], [True, False, False, True]]
   \<and> matrix4 [[False, False, False, False], [False, True, False, False],
        [False, False, False, False], [True, False, False, True]]"
proof -
  let ?M = "[[False, False, False, False], [False, True, False, False],
             [False, False, False, False], [False, False, False, True]]"
  have m: "matrix4 ?M" by (simp add: matrix4_def)
  have t: "toggle 3 0 ?M = [[False, False, False, False], [False, True, False, False],
        [False, False, False, False], [True, False, False, True]]"
    by code_simp
  from toggle_frame [OF m, of 3 0] t m show ?thesis by simp
qed

section \<open>Properties of configuration normalisation\<close>

lemma get_prop_ok: "v \<noteq> JUndefined \<Longrightarrow> v \<noteq> JNull \<Longrightarrow> get_prop v k = Inr (own_prop v k)"
  by (simp add: get_prop_def)

lemma opt_prop_defined:
  "opt_prop json k \<noteq> JUndefined \<Longrightarrow>
   json \<noteq> JUndefined \<and> json \<noteq> JNull \<and> opt_prop json k = own_prop json k"
  by (auto simp: opt_prop_def)

lemma raw_cats_eq:
  "raw_cats json =
     Inr (if truthy (opt_prop json ''cats'') \<and> typeof_object (opt_prop json ''cats'')
          then opt_prop json ''cats'' else JObj [])"
proof (cases "truthy (opt_prop json ''cats'') \<and> typeof_object (opt_prop json ''cats'')")
  case True
  then have "opt_prop json ''cats'' \<noteq> JUndefined" by auto
  from opt_prop_defined [OF this] True show ?thesis
    by (simp add: raw_cats_def get_prop_ok)
next
  case False
  then show ?thesis by (auto simp: raw_cats_def)
qed

lemma raw_cats_kind:
  assumes "rc = (if truthy v \<and> typeof_object v then v else JObj [])"
  shows "(\<exists>kvs. rc = JObj kvs) \<or> (\<exists>xs. rc = JArr xs)"
  using assms by (cases v) (auto split: if_splits)

lemma object_keys_ok:
  "(\<exists>kvs. rc = JObj kvs) \<or> (\<exists>xs. rc = JArr xs) \<Longrightarrow> \<exists>ks. object_keys rc = Inr ks"
  by auto

lemma Number_ok_iff: "(\<exists>n. Number E v = Inr n) \<longleftrightarrow> coercible v"
proof (cases v)
  case (JArr xs)
  have "(\<exists>n. Number E (JArr xs) = Inr n) \<longleftrightarrow> (\<exists>s. ToString E (JArr xs) = Inr s)"
    by (auto simp: and_then_eq_Inr simp del: ToString.simps)
  with ToString_ok_iff [of E "JArr xs"] JArr show ?thesis by simp
qed auto

lemma Number_error: "Number E v = Inl e \<Longrightarrow> e = TypeError"
proof (cases v)
  case (JArr xs)
  assume "Number E v = Inl e"
  with JArr have "ToString E (JArr xs) = Inl e"
    by (cases "ToString E (JArr xs)") (simp_all del: ToString.simps)
  then show ?thesis by (rule ToString_error)
qed (auto split: if_splits)

lemma Number_values:
  "Number E JUndefined = Inr NaN"
  "Number E JNull = Inr (Fin 0)"
  "Number E (JBool True) = Inr (Fin 1)"
  "Number E (JBool False) = Inr (Fin 0)"
  "Number E (JNum x) = Inr x"
  "Number E (JStr s) = Inr (StringToNumber E s)"
  by simp_all

lemma fill_cats_unfold:
  assumes "(\<exists>kvs. rc = JObj kvs) \<or> (\<exists>xs. rc = JArr xs)"
  shows "fill_cats E rc ks
         = for_each ks empty_cats (\<lambda>k obj.
             and_then (normalizeWords E (own_prop rc k)) (\<lambda>ws. Inr (cats_put obj k ws)))"
proof -
  from assms have "rc \<noteq> JUndefined" "rc \<noteq> JNull" by auto
  then show ?thesis by (simp add: fill_cats_def S_JStr get_prop_ok)
qed

lemma for_each_words_fold:
  assumes "\<forall>k \<in> set ks. \<exists>ws. w k = Inr ws"
  shows "for_each ks s (\<lambda>k obj. and_then (w k) (\<lambda>ws. Inr (f obj k ws)))
         = Inr (fold (\<lambda>k obj. f obj k (projr (w k))) ks s)"
  using assms by (induction ks arbitrary: s) auto

lemma for_each_words_conv:
  assumes "for_each ks s (\<lambda>k obj. and_then (w k) (\<lambda>ws. Inr (f obj k ws))) = Inr obj"
  shows "\<forall>k \<in> set ks. \<exists>ws. w k = Inr ws"
  using assms by (induction ks arbitrary: s) (auto simp: and_then_eq_Inr)

lemma fill_cats_Inr_iff:
  assumes "(\<exists>kvs. rc = JObj kvs) \<or> (\<exists>xs. rc = JArr xs)"
  shows "fill_cats E rc ks = Inr obj \<longleftrightarrow>
           (\<forall>k \<in> set ks. words_coercible (own_prop rc k))
           \<and> obj = fold (\<lambda>k obj. cats_put obj k (projr (normalizeWords E (own_prop rc k))))
                     ks empty_cats"
proof -
  let ?w = "\<lambda>k. normalizeWords E (own_prop rc k)"
  have ok: "(\<forall>k \<in> set ks. \<exists>ws. ?w k = Inr ws) \<longleftrightarrow> (\<forall>k \<in> set ks. words_coercible (own_prop rc k))"
    by (simp add: normalizeWords_ok_iff)
  show ?thesis
  proof
    assume a: "fill_cats E rc ks = Inr obj"
    then have b: "\<forall>k \<in> set ks. \<exists>ws. ?w k = Inr ws"
      unfolding fill_cats_unfold [OF assms] by (rule for_each_words_conv)
    from a for_each_words_fold [OF b, where f = cats_put and s = empty_cats] b ok
    show "(\<forall>k \<in> set ks. words_coercible (own_prop rc k))
           \<and> obj = fold (\<lambda>k obj. cats_put obj k (projr (?w k))) ks empty_cats"
      unfolding fill_cats_unfold [OF assms] by simp
  next
    assume "(\<forall>k \<in> set ks. words_coercible (own_prop rc k))
           \<and> obj = fold (\<lambda>k obj. cats_put obj k (projr (?w k))) ks empty_cats"
    with ok for_each_words_fold [where w = ?w and f = cats_put and s = empty_cats and ks = ks]
    show "fill_cats E rc ks = Inr obj"
      unfolding fill_cats_unfold [OF assms] by simp
  qed
qed

lemma raw_ord_eq:
  "raw_ord E json obj =
     (if isArr (opt_prop json ''ord'') then normalizeWords E (opt_prop json ''ord'')
      else Inr (cats_keys obj))"
proof (cases "isArr (opt_prop json ''ord'')")
  case True
  then have "opt_prop json ''ord'' \<noteq> JUndefined" by auto
  from opt_prop_defined [OF this] True show ?thesis
    by (simp add: raw_ord_def get_prop_ok)
next
  case False
  then show ?thesis by (simp add: raw_ord_def)
qed

lemma normalizeWords_not_array: "\<not> isArr v \<Longrightarrow> normalizeWords E v = Inr []"
  by (cases v) simp_all

lemma normalizeConfig_Inr_iff:
  assumes "rc = (if truthy (opt_prop json ''cats'') \<and> typeof_object (opt_prop json ''cats'')
                 then opt_prop json ''cats'' else JObj [])"
    and "object_keys rc = Inr ks"
  shows "normalizeConfig E json = Inr cfg \<longleftrightarrow>
     (\<exists>obj names n m.
        fill_cats E rc ks = Inr obj
        \<and> normalizeWords E (opt_prop json ''ord'') = Inr names
        \<and> Number E (opt_prop json ''size'') = Inr n
        \<and> Number E (opt_prop json ''lines'') = Inr m
        \<and> cfg = \<lparr>cats = obj, size_cfg = or_default n (Fin 4), lines = or_default m (Fin 3),
                  ord = Some (if isArr (opt_prop json ''ord'') then names else cats_keys obj)\<rparr>)"
proof -
  have rc: "raw_cats json = Inr rc"
    unfolding assms(1) by (rule raw_cats_eq)
  show ?thesis
  proof (cases "isArr (opt_prop json ''ord'')")
    case True
    then show ?thesis
      by (auto simp: normalizeConfig_def rc assms(2) raw_ord_eq and_then_eq_Inr
          SIZE_def REQUIRED_LINES_def Let_def)
  next
    case False
    then show ?thesis
      by (auto simp: normalizeConfig_def rc assms(2) raw_ord_eq and_then_eq_Inr
          normalizeWords_not_array SIZE_def REQUIRED_LINES_def Let_def)
  qed
qed

lemma category_values_eq:
  assumes "rc = (if truthy (opt_prop json ''cats'') \<and> typeof_object (opt_prop json ''cats'')
                 then opt_prop json ''cats'' else JObj [])"
    and "object_keys rc = Inr ks"
  shows "category_values json = map (own_prop rc) ks"
  using assms by (simp add: category_values_def Let_def)

text \<open>
  \<open>normalizeConfig\<close> returns a configuration exactly for the documents whose values
  convert; for every other document it throws a \<open>TypeError\<close>.
\<close>

lemma normalizeConfig_returns_iff:
  "(\<exists>cfg. normalizeConfig E json = Inr cfg) \<longleftrightarrow> config_coercible json"
proof -
  define rc where "rc = (if truthy (opt_prop json ''cats'') \<and> typeof_object (opt_prop json ''cats'')
                 then opt_prop json ''cats'' else JObj [])"
  have kind: "(\<exists>kvs. rc = JObj kvs) \<or> (\<exists>xs. rc = JArr xs)"
    using rc_def by (rule raw_cats_kind)
  then obtain ks where ks: "object_keys rc = Inr ks"
    using object_keys_ok by blast
  have cv: "list_all words_coercible (category_values json)
      \<longleftrightarrow> (\<forall>k \<in> set ks. words_coercible (own_prop rc k))"
    by (simp add: category_values_eq [OF rc_def ks] list_all_iff)
  have "(\<exists>cfg. normalizeConfig E json = Inr cfg) \<longleftrightarrow>
      (\<exists>obj. fill_cats E rc ks = Inr obj)
      \<and> (\<exists>names. normalizeWords E (opt_prop json ''ord'') = Inr names)
      \<and> (\<exists>n. Number E (opt_prop json ''size'') = Inr n)
      \<and> (\<exists>m. Number E (opt_prop json ''lines'') = Inr m)"
    unfolding normalizeConfig_Inr_iff [OF rc_def ks] by blast
  also have "\<dots> \<longleftrightarrow> config_coercible json"
    by (simp add: fill_cats_Inr_iff [OF kind] normalizeWords_ok_iff Number_ok_iff
        config_coercible_def cv)
  finally show ?thesis .
qed

lemma and_then_eq_Inl:
  "and_then m f = Inl e \<longleftrightarrow> m = Inl e \<or> (\<exists>x. m = Inr x \<and> f x = Inl e)"
  by (cases m) simp_all

lemma for_each_Inl:
  "for_each ks s body = Inl e \<Longrightarrow> \<exists>k \<in> set ks. \<exists>t. body k t = Inl e"
  by (induction ks arbitrary: s) (auto simp: and_then_eq_Inl)

lemma fill_cats_error:
  assumes "(\<exists>kvs. rc = JObj kvs) \<or> (\<exists>xs. rc = JArr xs)" and "fill_cats E rc ks = Inl e"
  shows "e = TypeError"
proof -
  from assms(2) for_each_Inl
  obtain k where "\<exists>t. and_then (normalizeWords E (own_prop rc k)) (\<lambda>ws. Inr (cats_put t k ws)) = Inl e"
    unfolding fill_cats_unfold [OF assms(1)] by fastforce
  then have "normalizeWords E (own_prop rc k) = Inl e"
    by (auto simp: and_then_eq_Inl)
  then show ?thesis by (rule normalizeWords_error)
qed

lemma normalizeConfig_error:
  assumes "normalizeConfig E json = Inl e"
  shows "e = TypeError"
proof -
  define rc where "rc = (if truthy (opt_prop json ''cats'') \<and> typeof_object (opt_prop json ''cats'')
                 then opt_prop json ''cats'' else JObj [])"
  have kind: "(\<exists>kvs. rc = JObj kvs) \<or> (\<exists>xs. rc = JArr xs)"
    using rc_def by (rule raw_cats_kind)
  then obtain ks where ks: "object_keys rc = Inr ks"
    using object_keys_ok by blast
  have rc: "raw_cats json = Inr rc"
    unfolding rc_def by (rule raw_cats_eq)
  from assms have "fill_cats E rc ks = Inl e
      \<or> normalizeWords E (opt_prop json ''ord'') = Inl e
      \<or> Number E (opt_prop json ''size'') = Inl e
      \<or> Number E (opt_prop json ''lines'') = Inl e"
    by (auto simp: normalizeConfig_def rc ks raw_ord_eq and_then_eq_Inl Let_def split: if_splits)
  then show ?thesis
    using fill_cats_error [OF kind] normalizeWords_error Number_error by blast
qed

lemma proto_cats_put: "k \<noteq> ''__proto__'' \<Longrightarrow> proto (cats_put obj k v) = proto obj"
  by (simp add: cats_put_def)

lemma proto_fold_cats_put:
  "''__proto__'' \<notin> set ks \<Longrightarrow> proto (fold (\<lambda>k obj. cats_put obj k (g k)) ks obj0) = proto obj0"
  by (induction ks arbitrary: obj0) (auto simp: proto_cats_put)

lemma displayOrder_plain:
  assumes "proto (cats cfg) = None" and "ord cfg = Some names"
    and "\<forall>n \<in> set names. n \<notin> set object_prototype_names"
  shows "displayOrder cfg =
     (if names \<noteq> [] then filter (\<lambda>n. n \<in> set (cats_keys (cats cfg))) names
      else cats_keys (cats cfg))"
proof (cases "names = []")
  case True
  have "filter (\<lambda>n. cats_truthy (cats cfg) n) (cats_keys (cats cfg)) = cats_keys (cats cfg)"
    by (simp add: cats_truthy_def)
  with True assms(2) show ?thesis by (simp add: displayOrder_def)
next
  case False
  have "filter (\<lambda>n. cats_truthy (cats cfg) n) names
        = filter (\<lambda>n. n \<in> set (cats_keys (cats cfg))) names"
    using assms(1,3) by (intro filter_cong) (auto simp: cats_truthy_def inherited_truthy_def)
  with False assms(2) show ?thesis by (simp add: displayOrder_def)
qed

lemma displayOrder_keys:
  assumes "ord cfg = Some (cats_keys (cats cfg))"
  shows "displayOrder cfg = cats_keys (cats cfg)"
proof -
  have "filter (\<lambda>n. cats_truthy (cats cfg) n) (cats_keys (cats cfg)) = cats_keys (cats cfg)"
    by (simp add: cats_truthy_def)
  with assms show ?thesis by (simp add: displayOrder_def)
qed

lemma example_A_B:
  "\<exists>cfg. normalizeConfig E (JObj [(''cats'', JObj [(''A'', JArr (map JStr W))]),
                                  (''ord'', JArr [JStr ''A'', JStr ''B''])]) = Inr cfg
         \<and> displayOrder cfg = [''A'']"
proof -
  let ?ws = "filter (\<lambda>w. w \<noteq> []) (map trim W)"
  let ?cfg = "\<lparr>cats = \<lparr>own = [(''A'', ?ws)], proto = None\<rparr>, size_cfg = Fin 4, lines = Fin 3,
      ord = Some [''A'', ''B'']\<rparr>"
  have o: "normalizeWords E (JArr [JStr ''A'', JStr ''B'']) = Inr [''A'', ''B'']"
    by (simp add: S_def trim_def isWhiteSpace_def)
  have n: "normalizeConfig E (JObj [(''cats'', JObj [(''A'', JArr (map JStr W))]),
                                  (''ord'', JArr [JStr ''A'', JStr ''B''])]) = Inr ?cfg"
    by (simp add: normalizeConfig_def raw_cats_def opt_prop_def get_prop_def fill_cats_def
        raw_ord_def S_JStr cats_put_def empty_cats_def o normalizeWords_strings
        or_default_def falsy_num_def SIZE_def REQUIRED_LINES_def Let_def
        del: normalizeWords.simps)
  have d: "displayOrder ?cfg = [''A'']"
    by (simp add: displayOrder_def cats_truthy_def cats_keys_def inherited_truthy_def
        object_prototype_names_def)
  from n d show ?thesis by blast
qed

text \<open>
  C7 as amended. The display order of a normalised configuration is, when the raw
  \<open>ord\<close> field is a list whose normalisation is not empty, that normalisation without
  the names that are not keys of the category mapping; otherwise (no list, or a list
  that normalises to nothing) it is the key sequence of the category mapping. This is
  stated for documents whose categories do not include the key \<open>__proto__\<close> and whose
  order list names no member of \<open>Object.prototype\<close>. The filter is the player page's:
  the \<open>ord\<close> field that \<open>normalizeConfig\<close> returns is the unfiltered normalisation. In
  particular the document with the one category \<open>A\<close> and the order \<open>A\<close>, \<open>B\<close> has the
  display order \<open>A\<close>.
\<close>

theorem displayOrder_normalized:
  assumes "normalizeConfig E json = Inr cfg"
    and "raw_cats json = Inr rc" and "object_keys rc = Inr ks" and "''__proto__'' \<notin> set ks"
  shows "\<exists>names. normalizeWords E (opt_prop json ''ord'') = Inr names
           \<and> ((\<forall>n \<in> set names. n \<notin> set object_prototype_names) \<longrightarrow>
                displayOrder cfg =
                  (if isArr (opt_prop json ''ord'') \<and> names \<noteq> []
                   then filter (\<lambda>n. n \<in> set (cats_keys (cats cfg))) names
                   else cats_keys (cats cfg)))
           \<and> ord cfg = Some (if isArr (opt_prop json ''ord'') then names
                             else cats_keys (cats cfg))
           \<and> (\<exists>cfg'. normalizeConfig E
                         (JObj [(''cats'', JObj [(''A'', JArr (map JStr W))]),
                                (''ord'', JArr [JStr ''A'', JStr ''B''])]) = Inr cfg'
                  \<and> displayOrder cfg' = [''A''])"
proof -
  let ?o = "opt_prop json ''ord''"
  let ?c = "opt_prop json ''cats''"
  define rc' where "rc' = (if truthy ?c \<and> typeof_object ?c then ?c else JObj [])"
  have rc: "rc' = rc" using assms(2) by (simp add: raw_cats_eq rc'_def)
  have kind: "(\<exists>kvs. rc = JObj kvs) \<or> (\<exists>xs. rc = JArr xs)"
    using rc'_def unfolding rc by (rule raw_cats_kind)
  from assms(1) normalizeConfig_Inr_iff [OF rc'_def, of ks E cfg] assms(3) rc
  obtain obj names n m where fill: "fill_cats E rc ks = Inr obj"
    and names: "normalizeWords E ?o = Inr names"
    and cfg: "cfg = \<lparr>cats = obj, size_cfg = or_default n (Fin 4), lines = or_default m (Fin 3),
                  ord = Some (if isArr ?o then names else cats_keys obj)\<rparr>"
    by auto
  from fill have "obj = fold (\<lambda>k obj. cats_put obj k (projr (normalizeWords E (own_prop rc k))))
                     ks empty_cats"
    by (simp add: fill_cats_Inr_iff [OF kind])
  then have p: "proto (cats cfg) = None"
    using assms(4) by (simp add: cfg proto_fold_cats_put empty_cats_def)
  have field: "ord cfg = Some (if isArr ?o then names else cats_keys (cats cfg))"
    by (simp add: cfg)
  have main: "displayOrder cfg =
           (if isArr ?o \<and> names \<noteq> []
            then filter (\<lambda>n. n \<in> set (cats_keys (cats cfg))) names
            else cats_keys (cats cfg))"
    if safe: "\<forall>n \<in> set names. n \<notin> set object_prototype_names"
  proof (cases "isArr ?o")
    case True
    then have o: "ord cfg = Some names" by (simp add: cfg)
    from displayOrder_plain [OF p o safe] True show ?thesis by simp
  next
    case False
    then have "ord cfg = Some (cats_keys (cats cfg))" by (simp add: cfg)
    from displayOrder_keys [OF this] False show ?thesis by simp
  qed
  from names main field example_A_B show ?thesis by blast
qed

theorem displayOrder_normalized_witness:
  "normalizeConfig integer_engine
      (JObj [(''cats'', JObj [(''A'', JArr [JStr ''x'', JStr '' y '']), (''C'', JArr [])]),
             (''ord'', JArr [JStr ''C'', JStr ''B'', JNull, JStr ''A ''])])
     = Inr \<lparr>cats = \<lparr>own = [(''A'', [''x'', ''y'']), (''C'', [])], proto = None\<rparr>,
            size_cfg = Fin 4, lines = Fin 3, ord = Some [''C'', ''B'', ''A'']\<rparr>
   \<and> displayOrder \<lparr>cats = \<lparr>own = [(''A'', [''x'', ''y'']), (''C'', [])], proto = None\<rparr>,
            size_cfg = Fin 4, lines = Fin 3, ord = Some [''C'', ''B'', ''A'']\<rparr>
     = [''C'', ''A'']"
proof -
  let ?json = "JObj [(''cats'', JObj [(''A'', JArr [JStr ''x'', JStr '' y '']), (''C'', JArr [])]),
             (''ord'', JArr [JStr ''C'', JStr ''B'', JNull, JStr ''A ''])]"
  let ?cfg = "\<lparr>cats = \<lparr>own = [(''A'', [''x'', ''y'']), (''C'', [])], proto = None\<rparr>,
            size_cfg = Fin 4, lines = Fin 3, ord = Some [''C'', ''B'', ''A'']\<rparr>"
  have n: "normalizeConfig integer_engine ?json = Inr ?cfg" by code_simp
  have r: "raw_cats ?json = Inr (JObj [(''A'', JArr [JStr ''x'', JStr '' y '']), (''C'', JArr [])])"
    by code_simp
  have k: "object_keys (JObj [(''A'', JArr [JStr ''x'', JStr '' y '']), (''C'', JArr [])])
      = Inr [''A'', ''C'']"
    by simp
  have p: "''__proto__'' \<notin> set [''A'', ''C'']" by simp
  have w: "normalizeWords integer_engine (opt_prop ?json ''ord'') = Inr [''C'', ''B'', ''A'']"
    by code_simp
  have i: "\<forall>n \<in> set [''C'', ''B'', ''A'']. n \<notin> set object_prototype_names"
    by (simp add: object_prototype_names_def)
  have a: "isArr (opt_prop ?json ''ord'')" by code_simp
  from displayOrder_normalized [OF n r k p] w i a
  have "displayOrder ?cfg = [''C'', ''A'']"
    by (auto simp: cats_keys_def)
  with n show ?thesis by simp
qed

theorem displayOrder_empty_list_counterexample:
  "normalizeConfig integer_engine
      (JObj [(''cats'', JObj [(''A'', JArr [JStr ''x''])]), (''ord'', JArr [])])
     = Inr \<lparr>cats = \<lparr>own = [(''A'', [''x''])], proto = None\<rparr>,
            size_cfg = Fin 4, lines = Fin 3, ord = Some []\<rparr>
   \<and> isArr (opt_prop (JObj [(''cats'', JObj [(''A'', JArr [JStr ''x''])]), (''ord'', JArr [])])
        ''ord'')
   \<and> displayOrder \<lparr>cats = \<lparr>own = [(''A'', [''x''])], proto = None\<rparr>,
            size_cfg = Fin 4, lines = Fin 3, ord = Some []\<rparr> = [''A'']
   \<and> stated_display_order integer_engine
        (JObj [(''cats'', JObj [(''A'', JArr [JStr ''x''])]), (''ord'', JArr [])])
        \<lparr>cats = \<lparr>own = [(''A'', [''x''])], proto = None\<rparr>,
            size_cfg = Fin 4, lines = Fin 3, ord = Some []\<rparr> = Inr []"
  by code_simp

text \<open>
  Why the order list must not name a member of \<open>Object.prototype\<close>: the filter tests
  \<open>!!cats[n]\<close>, and \<open>cats.toString\<close> is a function.
\<close>

lemma displayOrder_inherited_name:
  "displayOrder \<lparr>cats = \<lparr>own = [(''A'', [''x''])], proto = None\<rparr>, size_cfg = Fin 4,
      lines = Fin 3, ord = Some [''toString'', ''B'', ''A'']\<rparr> = [''toString'', ''A'']"
  by code_simp

text \<open>
  The throws that the amended statements of C8 and C9 leave out: a \<open>size\<close> that is an
  object with a member \<open>toString\<close>, and a category that lists such an object.
\<close>

lemma normalizeConfig_throws:
  "normalizeConfig integer_engine (JObj [(''size'', JObj [(''toString'', JNum (Fin 1))])])
     = Inl TypeError"
  "normalizeConfig integer_engine
     (JObj [(''cats'', JObj [(''A'', JArr [JObj [(''toString'', JNum (Fin 1))]])])])
     = Inl TypeError"
  by code_simp+

lemma positive_truthy: "positive n \<Longrightarrow> \<not> falsy_num n"
  by (cases n) (auto simp: falsy_num_def)

text \<open>
  C8 as amended. For a document whose values convert, normalisation coerces the \<open>size\<close>
  and \<open>lines\<close> fields to numbers (\<open>undefined\<close> to NaN, \<open>null\<close> to 0, a boolean to 1 or 0, a
  number to itself, a string to the number it reads as) and substitutes the default (4
  for \<open>size\<close>, 3 for \<open>lines\<close>) exactly when the coercion yields NaN, zero or negative
  zero. Every other result is kept as it is: a positive number, and also a negative
  number or an infinity.
\<close>

theorem normalizeConfig_size_lines:
  assumes "config_coercible json"
  shows "\<exists>cfg n m. normalizeConfig E json = Inr cfg
     \<and> Number E (opt_prop json ''size'') = Inr n
     \<and> Number E (opt_prop json ''lines'') = Inr m
     \<and> size_cfg cfg = (if falsy_num n then Fin 4 else n)
     \<and> lines cfg = (if falsy_num m then Fin 3 else m)
     \<and> (falsy_num x \<longleftrightarrow> x = NaN \<or> x = Fin 0 \<or> x = NegZero)
     \<and> (positive x \<longrightarrow> \<not> falsy_num x)
     \<and> Number E JUndefined = Inr NaN \<and> Number E JNull = Inr (Fin 0)
     \<and> Number E (JBool True) = Inr (Fin 1) \<and> Number E (JBool False) = Inr (Fin 0)
     \<and> Number E (JNum x) = Inr x \<and> Number E (JStr s) = Inr (StringToNumber E s)"
proof -
  define rc where "rc = (if truthy (opt_prop json ''cats'') \<and> typeof_object (opt_prop json ''cats'')
                 then opt_prop json ''cats'' else JObj [])"
  obtain ks where ks: "object_keys rc = Inr ks"
    using raw_cats_kind [OF rc_def] object_keys_ok by blast
  from assms obtain cfg where c: "normalizeConfig E json = Inr cfg"
    using normalizeConfig_returns_iff by blast
  with normalizeConfig_Inr_iff [OF rc_def ks, of E cfg]
  obtain n m where "Number E (opt_prop json ''size'') = Inr n"
    and "Number E (opt_prop json ''lines'') = Inr m"
    and "size_cfg cfg = or_default n (Fin 4)" and "lines cfg = or_default m (Fin 3)"
    by auto
  with c have "\<exists>cfg n m. normalizeConfig E json = Inr cfg
     \<and> Number E (opt_prop json ''size'') = Inr n
     \<and> Number E (opt_prop json ''lines'') = Inr m
     \<and> size_cfg cfg = (if falsy_num n then Fin 4 else n)
     \<and> lines cfg = (if falsy_num m then Fin 3 else m)"
    by (auto simp: or_default_def)
  moreover have "(falsy_num x \<longleftrightarrow> x = NaN \<or> x = Fin 0 \<or> x = NegZero)"
    by (simp add: falsy_num_def)
  moreover have "positive x \<longrightarrow> \<not> falsy_num x"
    by (simp add: positive_truthy)
  ultimately show ?thesis by (simp add: Number_values)
qed

theorem normalizeConfig_size_lines_witness:
  "config_coercible (JObj [(''size'', JStr '' 12 ''), (''lines'', JNum (Fin 0))])
   \<and> normalizeConfig integer_engine (JObj [(''size'', JStr '' 12 ''), (''lines'', JNum (Fin 0))])
     = Inr \<lparr>cats = \<lparr>own = [], proto = None\<rparr>, size_cfg = Fin 12, lines = Fin 3, ord = Some []\<rparr>
   \<and> Number integer_engine (JStr '' 12 '') = Inr (Fin 12) \<and> positive (Fin 12)
   \<and> falsy_num (Fin 0)"
proof -
  let ?json = "JObj [(''size'', JStr '' 12 ''), (''lines'', JNum (Fin 0))]"
  have cc: "config_coercible ?json" by code_simp
  have s: "Number integer_engine (opt_prop ?json ''size'') = Inr (Fin 12)"
    by (simp add: opt_prop_def integer_engine_def integer_StringToNumber_def trim_def
        isWhiteSpace_def isDigit_def decimal_value_def)
  have l: "Number integer_engine (opt_prop ?json ''lines'') = Inr (Fin 0)"
    by (simp add: opt_prop_def)
  have c: "\<And>cfg. normalizeConfig integer_engine ?json = Inr cfg \<Longrightarrow>
      cats cfg = \<lparr>own = [], proto = None\<rparr> \<and> ord cfg = Some []"
    by (auto simp: normalizeConfig_def raw_cats_def opt_prop_def and_then_eq_Inr fill_cats_def
        raw_ord_def empty_cats_def cats_keys_def Let_def)
  from normalizeConfig_size_lines [OF cc, of integer_engine "Fin 0"]
  obtain cfg where n: "normalizeConfig integer_engine ?json = Inr cfg"
    and "size_cfg cfg = Fin 12" and "lines cfg = Fin 3" and f: "falsy_num (Fin 0)"
    unfolding s l by (auto simp: falsy_num_def)
  with c [OF n] have "cfg = \<lparr>cats = \<lparr>own = [], proto = None\<rparr>, size_cfg = Fin 12,
      lines = Fin 3, ord = Some []\<rparr>"
    by (cases cfg) simp
  with n f s cc show ?thesis by (simp add: opt_prop_def)
qed

theorem normalizeConfig_negative_counterexample:
  "normalizeConfig integer_engine
      (JObj [(''size'', JNum (Fin (- 2))), (''lines'', JNum (Fin (- 1)))])
     = Inr \<lparr>cats = \<lparr>own = [], proto = None\<rparr>, size_cfg = Fin (- 2), lines = Fin (- 1),
            ord = Some []\<rparr>
   \<and> Number integer_engine (JNum (Fin (- 2))) = Inr (Fin (- 2)) \<and> \<not> positive (Fin (- 2))
   \<and> Number integer_engine (JNum (Fin (- 1))) = Inr (Fin (- 1)) \<and> \<not> positive (Fin (- 1))"
  by (simp add: normalizeConfig_def raw_cats_def opt_prop_def fill_cats_def
      raw_ord_def empty_cats_def cats_keys_def or_default_def falsy_num_def Let_def)

lemma not_object_guard:
  "\<not> is_mapping v \<Longrightarrow> \<not> isArr v \<Longrightarrow> \<not> (truthy v \<and> typeof_object v)"
  by (cases v) simp_all

lemma displayOrder_empty_cats:
  assumes "cats cfg = empty_cats" and "ord cfg = Some names"
    and "\<forall>n \<in> set names. n \<notin> set object_prototype_names"
  shows "displayOrder cfg = []"
proof -
  have "proto (cats cfg) = None" "cats_keys (cats cfg) = []"
    using assms(1) by (simp_all add: empty_cats_def cats_keys_def)
  with displayOrder_plain [OF this(1) assms(2,3)] show ?thesis by simp
qed

text \<open>
  C9 as amended. For every document whose values convert (no category lists, and
  neither \<open>ord\<close> lists nor \<open>size\<close> nor \<open>lines\<close> is, an object with a member \<open>toString\<close> or an
  array that holds one), configuration normalisation returns a configuration and does
  not throw. When the \<open>cats\<close> field is neither an object nor an array (it is missing, or
  null, a boolean, a number or a string), the category mapping is empty, the \<open>ord\<close> field
  is the normalisation of the raw \<open>ord\<close> list (empty when the raw field is no list), and
  the display order is empty, given that the raw list names no member of
  \<open>Object.prototype\<close>.
\<close>

theorem normalizeConfig_total:
  assumes "config_coercible json"
  shows "\<exists>cfg. normalizeConfig E json = Inr cfg
     \<and> (\<not> is_mapping (opt_prop json ''cats'') \<and> \<not> isArr (opt_prop json ''cats'') \<longrightarrow>
          cats cfg = empty_cats
          \<and> (\<exists>names. normalizeWords E (opt_prop json ''ord'') = Inr names
                \<and> ord cfg = Some names
                \<and> ((\<forall>n \<in> set names. n \<notin> set object_prototype_names)
                     \<longrightarrow> displayOrder cfg = [])))"
proof -
  let ?c = "opt_prop json ''cats''"
  let ?o = "opt_prop json ''ord''"
  define rc where "rc = (if truthy ?c \<and> typeof_object ?c then ?c else JObj [])"
  have kind: "(\<exists>kvs. rc = JObj kvs) \<or> (\<exists>xs. rc = JArr xs)"
    using rc_def by (rule raw_cats_kind)
  then obtain ks where ks: "object_keys rc = Inr ks"
    using object_keys_ok by blast
  from assms obtain cfg where n: "normalizeConfig E json = Inr cfg"
    using normalizeConfig_returns_iff by blast
  with normalizeConfig_Inr_iff [OF rc_def ks, of E cfg]
  obtain obj names where fill: "fill_cats E rc ks = Inr obj"
    and names: "normalizeWords E ?o = Inr names"
    and c: "cats cfg = obj"
    and o: "ord cfg = Some (if isArr ?o then names else cats_keys obj)"
    by auto
  have "cats cfg = empty_cats
          \<and> (\<exists>names. normalizeWords E ?o = Inr names \<and> ord cfg = Some names
                \<and> ((\<forall>n \<in> set names. n \<notin> set object_prototype_names)
                     \<longrightarrow> displayOrder cfg = []))"
    if "\<not> is_mapping ?c" and "\<not> isArr ?c"
  proof -
    have g: "\<not> (truthy ?c \<and> typeof_object ?c)"
      using that by (rule not_object_guard)
    have "rc = JObj []"
      unfolding rc_def using g by (rule if_not_P)
    with ks have "ks = []" by simp
    with fill c have e: "cats cfg = empty_cats"
      by (simp add: fill_cats_def)
    have "\<not> isArr ?o \<Longrightarrow> names = []"
      using names by (simp add: normalizeWords_not_array)
    with o e c have oo: "ord cfg = Some names"
      by (auto simp: empty_cats_def cats_keys_def)
    from e names oo displayOrder_empty_cats [OF e oo] show ?thesis by blast
  qed
  with n show ?thesis by blast
qed

theorem normalizeConfig_total_witness:
  "config_coercible (JObj [(''cats'', JStr ''not-an-object'')])
   \<and> \<not> is_mapping (opt_prop (JObj [(''cats'', JStr ''not-an-object'')]) ''cats'')
   \<and> \<not> isArr (opt_prop (JObj [(''cats'', JStr ''not-an-object'')]) ''cats'')
   \<and> normalizeConfig integer_engine (JObj [(''cats'', JStr ''not-an-object'')])
     = Inr \<lparr>cats = \<lparr>own = [], proto = None\<rparr>, size_cfg = Fin 4, lines = Fin 3, ord = Some []\<rparr>
   \<and> displayOrder \<lparr>cats = \<lparr>own = [], proto = None\<rparr>, size_cfg = Fin 4, lines = Fin 3,
        ord = Some []\<rparr> = []"
proof -
  let ?json = "JObj [(''cats'', JStr ''not-an-object'')]"
  let ?cfg = "\<lparr>cats = \<lparr>own = [], proto = None\<rparr>, size_cfg = Fin 4, lines = Fin 3,
        ord = Some []\<rparr>"
  have cc: "config_coercible ?json" by code_simp
  have a: "\<not> is_mapping (opt_prop ?json ''cats'')" "\<not> isArr (opt_prop ?json ''cats'')"
    by (simp_all add: opt_prop_def)
  have n: "normalizeConfig integer_engine ?json = Inr ?cfg" by code_simp
  have w: "normalizeWords integer_engine (opt_prop ?json ''ord'') = Inr []"
    by (simp add: opt_prop_def)
  from normalizeConfig_total [OF cc, of integer_engine] a n w
  have "displayOrder ?cfg = []" by auto
  with cc a n show ?thesis by simp
qed

theorem normalizeConfig_array_counterexample:
  "\<not> is_mapping (opt_prop (JObj [(''cats'', JArr [JArr [JStr ''x'']])]) ''cats'')
   \<and> normalizeConfig integer_engine (JObj [(''cats'', JArr [JArr [JStr ''x'']])])
     = Inr \<lparr>cats = \<lparr>own = [(''0'', [''x''])], proto = None\<rparr>, size_cfg = Fin 4,
            lines = Fin 3, ord = Some [''0'']\<rparr>
   \<and> displayOrder \<lparr>cats = \<lparr>own = [(''0'', [''x''])], proto = None\<rparr>, size_cfg = Fin 4,
        lines = Fin 3, ord = Some [''0'']\<rparr> = [''0'']"
  by code_simp

end
